theory Spec2Isabelle
  imports
    Main
    "HOL-Library.Sublist"
    "HOL-Library.Char_ord"
    "HOL-Library.List_Lexorder"
    "HOL-Library.AList"
begin

section \<open>Overview\<close>

text \<open>
  A model of the package \<^verbatim>\<open>scanner\<close> of iplsd (file \<^verbatim>\<open>scanner/scanner.go\<close>). The
  program follows a log file, extracts an address from every line that matches one of
  the configured patterns, keeps the addresses in a watchlist file and, for each
  address, a file with its expiration in a timeout directory; a reaper removes the
  addresses whose expiration has passed.

  The theory has three parts. The first is the model: the shutdown coordinator as a state
  transformer, the functions of the Go library that the methods use, the two stores as a
  value of type \<open>world\<close>, and the methods of \<^verbatim>\<open>Scanner\<close> as functions that take a
  world and return their result together with the world they leave behind. Every error
  return of the source is a value of type \<open>error\<close>. The second part fixes the notions
  in which the properties are stated and some concrete states. The third part proves the
  properties.
\<close>

section \<open>The shutdown coordinator\<close>

text \<open>
  The part of \<^verbatim>\<open>Scanner\<close> that \<^verbatim>\<open>shutdown\<close> touches: the tail command, the
  \<^verbatim>\<open>active\<close> registry (a \<^verbatim>\<open>sync.Map\<close> keyed by strings) and the three stop
  channels, each made with capacity 1. The body of \<^verbatim>\<open>shutdown\<close> runs under
  \<^verbatim>\<open>shutdownLock\<close>, so concurrent calls execute it one after another; a call is
  modelled as one atomic transformation of the state. Log output is not modelled.

  A channel is its number of buffered notifications and whether it was closed. A send on
  a closed channel panics; a send on a full channel blocks until a receiver arrives,
  which the sequential model reports as \<open>Blocks\<close>.
\<close>

datatype 'a outcome = Returns 'a | Blocks | Panics

datatype chan = Chan (buffered: nat) (closed: bool)

definition send :: "chan \<Rightarrow> chan outcome" where
  "send c = (if closed c then Panics
             else if buffered c < 1 then Returns (Chan (buffered c + 1) False)
             else Blocks)"

text \<open>\<^verbatim>\<open>exec.Cmd\<close> with its \<^verbatim>\<open>Process\<close> field (nil until the command was started),
  the process being named by its pid.\<close>

datatype cmd = Cmd (Process: "nat option")

record coordinator =
  tail :: "cmd option"
  active :: "string \<rightharpoonup> string"
  reaperStop :: chan
  scannerStop :: chan
  handlerStop :: chan
  killed :: "nat list"
  waited :: "nat list"

text \<open>The fields \<open>killed\<close> and \<open>waited\<close> record, in order, the pids on which
  \<^verbatim>\<open>Process.Kill\<close> and \<^verbatim>\<open>Cmd.Wait\<close> were called. A failure of either call is only
  logged by the source, so it does not show in the state.\<close>

definition teardown_tail :: "coordinator \<Rightarrow> coordinator" where
  "teardown_tail s =
     (case tail s of
        None \<Rightarrow> s
      | Some c \<Rightarrow>
          (case Process c of
             None \<Rightarrow> s\<lparr>tail := None\<rparr>
           | Some pid \<Rightarrow> s\<lparr>killed := killed s @ [pid], waited := waited s @ [pid], tail := None\<rparr>))"

definition notify_reaper :: "coordinator \<Rightarrow> coordinator outcome" where
  "notify_reaper s =
     (case active s ''reaper'' of
        None \<Rightarrow> Returns s
      | Some _ \<Rightarrow>
          (case send (reaperStop s) of
             Returns c \<Rightarrow> Returns (s\<lparr>reaperStop := c\<rparr>)
           | Blocks \<Rightarrow> Blocks
           | Panics \<Rightarrow> Panics))"

definition notify_scanner :: "coordinator \<Rightarrow> coordinator outcome" where
  "notify_scanner s =
     (case active s ''scanner'' of
        None \<Rightarrow> Returns s
      | Some _ \<Rightarrow>
          (case send (scannerStop s) of
             Returns c \<Rightarrow> Returns (s\<lparr>scannerStop := c\<rparr>)
           | Blocks \<Rightarrow> Blocks
           | Panics \<Rightarrow> Panics))"

definition notify_handler :: "coordinator \<Rightarrow> coordinator outcome" where
  "notify_handler s =
     (case active s ''handler'' of
        None \<Rightarrow> Returns s
      | Some _ \<Rightarrow>
          (case send (handlerStop s) of
             Returns c \<Rightarrow> Returns (s\<lparr>handlerStop := c\<rparr>)
           | Blocks \<Rightarrow> Blocks
           | Panics \<Rightarrow> Panics))"

definition and_then :: "'a outcome \<Rightarrow> ('a \<Rightarrow> 'b outcome) \<Rightarrow> 'b outcome" where
  "and_then r f = (case r of Returns x \<Rightarrow> f x | Blocks \<Rightarrow> Blocks | Panics \<Rightarrow> Panics)"

definition shutdown :: "string \<Rightarrow> coordinator \<Rightarrow> coordinator outcome" where
  "shutdown caller s =
     (case active s ''shutdown'' of
        Some firstCaller \<Rightarrow> Returns s
      | None \<Rightarrow>
          and_then (notify_reaper (teardown_tail (s\<lparr>active := (active s)(''shutdown'' \<mapsto> caller)\<rparr>)))
            (\<lambda>s1. and_then (notify_scanner s1) notify_handler))"

text \<open>A run of calls to \<^verbatim>\<open>shutdown\<close>, in the order in which they obtain the lock.\<close>

fun shutdowns :: "string list \<Rightarrow> coordinator \<Rightarrow> coordinator outcome" where
  "shutdowns [] s = Returns s"
| "shutdowns (c # cs) s = and_then (shutdown c s) (shutdowns cs)"

text \<open>What the teardown sequence adds to a stop channel: one notification when the
  worker is registered, none otherwise.\<close>

definition notified :: "coordinator \<Rightarrow> string \<Rightarrow> chan \<Rightarrow> chan" where
  "notified s worker c =
     (case active s worker of None \<Rightarrow> c | Some _ \<Rightarrow> Chan (buffered c + 1) False)"

definition tail_pids :: "coordinator \<Rightarrow> nat list" where
  "tail_pids s = (case tail s of None \<Rightarrow> [] | Some c \<Rightarrow> (case Process c of None \<Rightarrow> [] | Some pid \<Rightarrow> [pid]))"

definition idle :: "chan \<Rightarrow> bool" where
  "idle c = (buffered c = 0 \<and> \<not> closed c)"

section \<open>Text helpers of the Go library\<close>

text \<open>
  Go strings are byte sequences; \<^typ>\<open>string\<close> is a list of 8-bit characters, so a
  rune outside ASCII is the bytes of its UTF-8 encoding.
\<close>

text \<open>\<^verbatim>\<open>strings.TrimSpace\<close> removes leading and trailing runes for which
  \<^verbatim>\<open>unicode.IsSpace\<close> holds. \<open>space_runes\<close> lists their UTF-8 encodings: the six
  ASCII ones, U+0085, U+00A0, U+1680, U+2000 to U+200A, U+2028, U+2029, U+202F, U+205F
  and U+3000.\<close>

definition space_runes :: "string list" where
  "space_runes =
     [[CHR 0x09], [CHR 0x0A], [CHR 0x0B], [CHR 0x0C], [CHR 0x0D], [CHR 0x20],
      [CHR 0xC2, CHR 0x85], [CHR 0xC2, CHR 0xA0],
      [CHR 0xE1, CHR 0x9A, CHR 0x80],
      [CHR 0xE2, CHR 0x80, CHR 0x80], [CHR 0xE2, CHR 0x80, CHR 0x81],
      [CHR 0xE2, CHR 0x80, CHR 0x82], [CHR 0xE2, CHR 0x80, CHR 0x83],
      [CHR 0xE2, CHR 0x80, CHR 0x84], [CHR 0xE2, CHR 0x80, CHR 0x85],
      [CHR 0xE2, CHR 0x80, CHR 0x86], [CHR 0xE2, CHR 0x80, CHR 0x87],
      [CHR 0xE2, CHR 0x80, CHR 0x88], [CHR 0xE2, CHR 0x80, CHR 0x89],
      [CHR 0xE2, CHR 0x80, CHR 0x8A],
      [CHR 0xE2, CHR 0x80, CHR 0xA8], [CHR 0xE2, CHR 0x80, CHR 0xA9],
      [CHR 0xE2, CHR 0x80, CHR 0xAF],
      [CHR 0xE2, CHR 0x81, CHR 0x9F],
      [CHR 0xE3, CHR 0x80, CHR 0x80]]"

definition space_prefix :: "string \<Rightarrow> string option" where
  "space_prefix s = find (\<lambda>q. prefix q s) space_runes"

definition space_suffix :: "string \<Rightarrow> string option" where
  "space_suffix s = find (\<lambda>q. suffix q s) space_runes"

lemma space_runes_nonempty: "q \<in> set space_runes \<Longrightarrow> q \<noteq> []"
  by (auto simp: space_runes_def)

lemma space_prefix_Some: "space_prefix s = Some q \<Longrightarrow> q \<noteq> [] \<and> prefix q s"
  by (auto simp: space_prefix_def find_Some_iff space_runes_nonempty)

lemma space_suffix_Some: "space_suffix s = Some q \<Longrightarrow> q \<noteq> [] \<and> suffix q s"
  by (auto simp: space_suffix_def find_Some_iff space_runes_nonempty)

function TrimLeft :: "string \<Rightarrow> string" where
  "TrimLeft s = (case space_prefix s of None \<Rightarrow> s | Some q \<Rightarrow> TrimLeft (drop (length q) s))"
  by pat_completeness auto
termination
proof (relation "measure length")
  show "wf (measure length)" by simp
next
  fix s :: string and q
  assume "space_prefix s = Some q"
  then have "q \<noteq> []" and "prefix q s" by (simp_all add: space_prefix_Some)
  then have "length s > 0" by (auto simp: prefix_def)
  with \<open>q \<noteq> []\<close> show "(drop (length q) s, s) \<in> measure length" by simp
qed

function TrimRight :: "string \<Rightarrow> string" where
  "TrimRight s =
     (case space_suffix s of None \<Rightarrow> s | Some q \<Rightarrow> TrimRight (take (length s - length q) s))"
  by pat_completeness auto
termination
proof (relation "measure length")
  show "wf (measure length)" by simp
next
  fix s :: string and q
  assume "space_suffix s = Some q"
  then have "q \<noteq> []" and "suffix q s" by (simp_all add: space_suffix_Some)
  then have "length s > 0" by (auto simp: suffix_def)
  with \<open>q \<noteq> []\<close> show "(take (length s - length q) s, s) \<in> measure length" by simp
qed

definition TrimSpace :: "string \<Rightarrow> string" where
  "TrimSpace s = TrimRight (TrimLeft s)"

text \<open>\<^verbatim>\<open>strings.Join\<close> and \<^verbatim>\<open>strings.Split\<close> (with a one-byte separator; the
  result of \<open>Split\<close> always has at least one element).\<close>

fun Join :: "string list \<Rightarrow> string \<Rightarrow> string" where
  "Join [] sep = []"
| "Join [x] sep = x"
| "Join (x # y # ys) sep = x @ sep @ Join (y # ys) sep"

fun split_from :: "char \<Rightarrow> string \<Rightarrow> string \<Rightarrow> string list" where
  "split_from sep cur [] = [cur]"
| "split_from sep cur (c # cs) =
     (if c = sep then cur # split_from sep [] cs else split_from sep (cur @ [c]) cs)"

definition Split :: "string \<Rightarrow> char \<Rightarrow> string list" where
  "Split s sep = split_from sep [] s"

text \<open>\<^verbatim>\<open>slices.Index\<close> (the first index, or -1) and \<^verbatim>\<open>slices.Delete\<close>, which
  panics when the range is not within the slice.\<close>

fun Index :: "'a list \<Rightarrow> 'a \<Rightarrow> int" where
  "Index [] a = -1"
| "Index (x # xs) a = (if x = a then 0 else (let i = Index xs a in if i < 0 then -1 else i + 1))"

definition Delete :: "'a list \<Rightarrow> int \<Rightarrow> int \<Rightarrow> 'a list option" where
  "Delete xs i j =
     (if 0 \<le> i \<and> i \<le> j \<and> j \<le> int (length xs) then Some (take (nat i) xs @ drop (nat j) xs)
      else None)"

text \<open>\<^verbatim>\<open>bufio.Scanner\<close> with the default split function \<^verbatim>\<open>ScanLines\<close>: the input is
  cut at every newline, a last fragment without a newline is a line when it is not empty,
  and one trailing carriage return is dropped from each line. A line of
  \<^verbatim>\<open>MaxScanTokenSize\<close> bytes or more does not fit the buffer, and the scanner stops
  there with \<^verbatim>\<open>ErrTooLong\<close>.\<close>

fun raw_lines :: "string \<Rightarrow> string \<Rightarrow> string list" where
  "raw_lines cur [] = (if cur = [] then [] else [cur])"
| "raw_lines cur (c # cs) =
     (if c = CHR 0x0A then cur # raw_lines [] cs else raw_lines (cur @ [c]) cs)"

definition dropCR :: "string \<Rightarrow> string" where
  "dropCR l = (if l \<noteq> [] \<and> last l = CHR 0x0D then butlast l else l)"

definition MaxScanTokenSize :: nat where
  "MaxScanTokenSize = 65536"

text \<open>\<^verbatim>\<open>IP_PATTERN.MatchString\<close> for the pattern
  \<^verbatim>\<open>((?:\d{1,3}\.){3}\d{1,3})\<close>. Each piece of the pattern is a function from an input
  to the list of inputs that may remain after the piece; the pattern is not anchored, so
  it is tried at every position. \<^verbatim>\<open>\d\<close> is an ASCII digit.\<close>

definition is_digit :: "char \<Rightarrow> bool" where
  "is_digit c = (c \<in> set ''0123456789'')"

definition digit :: "string \<Rightarrow> string list" where
  "digit s = (case s of [] \<Rightarrow> [] | c # r \<Rightarrow> if is_digit c then [r] else [])"

definition digits_1_3 :: "string \<Rightarrow> string list" where
  "digits_1_3 s =
     (let one = digit s; two = concat (map digit one); three = concat (map digit two)
      in one @ two @ three)"

definition dot :: "string \<Rightarrow> string list" where
  "dot s = (case s of [] \<Rightarrow> [] | c # r \<Rightarrow> if c = CHR ''.'' then [r] else [])"

definition digits_dot :: "string \<Rightarrow> string list" where
  "digits_dot s = concat (map dot (digits_1_3 s))"

definition ip_here :: "string \<Rightarrow> bool" where
  "ip_here s =
     (concat (map digits_1_3 (concat (map digits_dot (concat (map digits_dot (digits_dot s))))))
        \<noteq> [])"

fun MatchString :: "string \<Rightarrow> bool" where
  "MatchString [] = ip_here []"
| "MatchString (c # cs) = (ip_here (c # cs) \<or> MatchString cs)"

section \<open>The two stores\<close>

text \<open>
  The world outside the process, as far as the scanner reads and writes it: the wall
  clock (nanoseconds since the Unix epoch), the watchlist file at \<^verbatim>\<open>AddressFile\<close>
  (\<open>None\<close> when there is no such file), the directory at \<^verbatim>\<open>TimeoutDir\<close> (\<open>None\<close>
  when there is none) and the outcome of running an external command. A directory is the
  list of its entries, keyed by entry name. \<open>read_only\<close> stands for a file system that
  refuses every modification. \<open>exec_log\<close> records the commands that were run, in order.

  The content of a timeout file is kept as what \<^verbatim>\<open>Time.UnmarshalText\<close> makes of it:
  \<open>Stamp t\<close> is the text of the instant \<open>t\<close>, \<open>Junk\<close> is any text that does not parse.
  One world holds one clock reading; the passing of time between two steps is a change
  of \<open>now\<close> made from outside.

  \<^verbatim>\<open>filepath.Join(TimeoutDir, addr)\<close> names the entry \<open>addr\<close> of the directory when
  \<open>addr\<close> is a single path element. For another \<open>addr\<close> the path is the directory
  itself, or leaves the directory; the model does not follow such a path and reports the
  operation on it as failed.

  An entry of the directory is a regular file with its content, a subdirectory, or
  something else (a link, pipe, device or socket). Writing a file over a subdirectory
  fails. What writing over an entry of the third kind does depends on the kind, and a
  subdirectory can be removed only when it is empty, which the model does not record;
  both are reported as failed.
\<close>

datatype content = Stamp int | Junk string

datatype entry = Regular content | Directory | Irregular

record world =
  now :: int
  address_file :: "string option"
  timeout_dir :: "(string \<times> entry) list option"
  read_only :: bool
  exec_ok :: "string \<Rightarrow> string list \<Rightarrow> bool"
  exec_log :: "(string \<times> string list) list"

type_synonym regexp = "string \<Rightarrow> string list"

text \<open>A compiled \<^verbatim>\<open>*regexp.Regexp\<close> is used through \<^verbatim>\<open>FindStringSubmatch\<close> only, so
  it is modelled as that function: the empty list for no match, otherwise the match
  followed by the text of each capturing group.\<close>

record scanner =
  LogFile :: string
  AddressFile :: string
  TimeoutDir :: string
  AddressTimeout :: int
  TickInterval :: int
  Patterns :: "regexp list"
  AddCommand :: string
  AddArgs :: "string list"
  DeleteCommand :: string
  DeleteArgs :: "string list"
  verbose :: bool

datatype error =
    OpenFailed string
  | ReadingFailed string
  | UnexpectedAddress string string
  | MarshalFailed
  | WriteFailed string
  | RemoveFailed string
  | MkdirFailed string
  | ReadDirFailed string
  | ReadFileFailed string
  | UnmarshalFailed string string
  | ExecFailed string "string list"
  | SlicePanic
  | ParseDurationFailed string
  | CompileFailed string
  | Errorf string error
  | Fatal error

text \<open>\<open>Errorf p e\<close> is \<^verbatim>\<open>fmt.Errorf(p + ": %v", e)\<close>. \<^verbatim>\<open>Fatal\<close> and \<^verbatim>\<open>Fatalf\<close> are
  helpers of the package whose source is not at hand; their results are used as errors,
  kept here as \<open>Fatal e\<close>.\<close>

text \<open>\<^verbatim>\<open>Time.MarshalText\<close> fails for a year outside 0 to 9999 (taken in UTC).\<close>

definition MarshalText :: "int \<Rightarrow> error + content" where
  "MarshalText t =
     (if - 62167219200000000000 \<le> t \<and> t < 253402300800000000000 then Inr (Stamp t)
      else Inl MarshalFailed)"

definition UnmarshalText :: "content \<Rightarrow> int option" where
  "UnmarshalText c = (case c of Stamp t \<Rightarrow> Some t | Junk _ \<Rightarrow> None)"

definition entry_name :: "string \<Rightarrow> bool" where
  "entry_name n = (n \<noteq> [] \<and> n \<noteq> ''.'' \<and> n \<noteq> ''..'' \<and> CHR ''/'' \<notin> set n \<and> CHR 0x00 \<notin> set n)"

text \<open>\<^verbatim>\<open>os.WriteFile\<close>, \<^verbatim>\<open>os.ReadFile\<close> and \<^verbatim>\<open>os.Remove\<close> on
  \<^verbatim>\<open>filepath.Join(TimeoutDir, name)\<close>, and \<^verbatim>\<open>os.ReadDir\<close>, which lists the entries
  sorted by name.\<close>

definition write_timeout_entry :: "string \<Rightarrow> content \<Rightarrow> world \<Rightarrow> error option \<times> world" where
  "write_timeout_entry name data w =
     (case timeout_dir w of
        None \<Rightarrow> (Some (WriteFailed name), w)
      | Some d \<Rightarrow>
          if read_only w \<or> \<not> entry_name name then (Some (WriteFailed name), w)
          else (case map_of d name of
                  Some Directory \<Rightarrow> (Some (WriteFailed name), w)
                | Some Irregular \<Rightarrow> (Some (WriteFailed name), w)
                | _ \<Rightarrow> (None, w\<lparr>timeout_dir := Some (AList.update name (Regular data) d)\<rparr>)))"

definition read_timeout_entry :: "string \<Rightarrow> world \<Rightarrow> error + content" where
  "read_timeout_entry name w =
     (case timeout_dir w of
        None \<Rightarrow> Inl (ReadFileFailed name)
      | Some d \<Rightarrow>
          (case map_of d name of
             Some (Regular data) \<Rightarrow> if entry_name name then Inr data else Inl (ReadFileFailed name)
           | _ \<Rightarrow> Inl (ReadFileFailed name)))"

definition remove_timeout_entry :: "string \<Rightarrow> world \<Rightarrow> error option \<times> world" where
  "remove_timeout_entry name w =
     (case timeout_dir w of
        None \<Rightarrow> (Some (RemoveFailed name), w)
      | Some d \<Rightarrow>
          if read_only w \<or> \<not> entry_name name then (Some (RemoveFailed name), w)
          else (case map_of d name of
                  None \<Rightarrow> (Some (RemoveFailed name), w)
                | Some Directory \<Rightarrow> (Some (RemoveFailed name), w)
                | Some _ \<Rightarrow> (None, w\<lparr>timeout_dir := Some (AList.delete name d)\<rparr>)))"

definition ReadDir :: "world \<Rightarrow> error + (string \<times> entry) list" where
  "ReadDir w =
     (case timeout_dir w of
        None \<Rightarrow> Inl (ReadDirFailed [])
      | Some d \<Rightarrow> Inr (sort_key fst d))"

definition write_address_file :: "string \<Rightarrow> world \<Rightarrow> error option \<times> world" where
  "write_address_file data w =
     (if read_only w then (Some (WriteFailed []), w)
      else (None, w\<lparr>address_file := Some data\<rparr>))"

subsection \<open>The methods of \<^verbatim>\<open>Scanner\<close> on the stores\<close>

definition writeTimeoutFile :: "scanner \<Rightarrow> string \<Rightarrow> world \<Rightarrow> error option \<times> world" where
  "writeTimeoutFile s addr w =
     (let expiration = now w + AddressTimeout s in
      case MarshalText expiration of
        Inl err \<Rightarrow> (Some (Errorf ''failed marshalling expiration'' err), w)
      | Inr data \<Rightarrow> write_timeout_entry addr data w)"

definition deleteTimeoutFile :: "scanner \<Rightarrow> string \<Rightarrow> world \<Rightarrow> error option \<times> world" where
  "deleteTimeoutFile s addr w = remove_timeout_entry addr w"

definition exec :: "string \<Rightarrow> string list \<Rightarrow> world \<Rightarrow> error option \<times> world" where
  "exec command args w =
     (let w1 = w\<lparr>exec_log := exec_log w @ [(command, args)]\<rparr> in
      if exec_ok w command args then (None, w1) else (Some (ExecFailed command args), w1))"

fun scan_addresses :: "scanner \<Rightarrow> string list \<Rightarrow> string list \<Rightarrow> error + string list" where
  "scan_addresses s [] addrs = Inr addrs"
| "scan_addresses s (l # ls) addrs =
     (if MaxScanTokenSize \<le> length l then Inl (ReadingFailed (AddressFile s))
      else
        (let addr = TrimSpace (dropCR l) in
         if addr \<noteq> [] then
           (if MatchString addr then scan_addresses s ls (addrs @ [addr])
            else Inl (UnexpectedAddress addr (AddressFile s)))
         else scan_addresses s ls addrs))"

definition readAddressFile :: "scanner \<Rightarrow> world \<Rightarrow> error + string list" where
  "readAddressFile s w =
     (case address_file w of
        None \<Rightarrow> Inl (OpenFailed (AddressFile s))
      | Some text \<Rightarrow> scan_addresses s (raw_lines [] text) [])"

definition addAddress :: "scanner \<Rightarrow> string \<Rightarrow> world \<Rightarrow> (error + string) \<times> world" where
  "addAddress s addr w =
     (case (if AddCommand s \<noteq> [] then exec (AddCommand s) (AddArgs s @ [addr]) w else (None, w)) of
        (Some err, w1) \<Rightarrow> (Inl err, w1)
      | (None, w1) \<Rightarrow>
          (case readAddressFile s w1 of
             Inl err \<Rightarrow> (Inl err, w1)
           | Inr addrs \<Rightarrow>
               if addr \<in> set addrs then (Inr ''already present in'', w1)
               else
                 (case write_address_file (Join (addrs @ [addr]) [CHR 0x0A] @ [CHR 0x0A]) w1 of
                    (Some err, w2) \<Rightarrow> (Inl err, w2)
                  | (None, w2) \<Rightarrow> (Inr ''added to'', w2))))"

definition removeAddress :: "scanner \<Rightarrow> string \<Rightarrow> world \<Rightarrow> (error + string) \<times> world" where
  "removeAddress s addr w =
     (case (if DeleteCommand s \<noteq> [] then exec (DeleteCommand s) (DeleteArgs s @ [addr]) w
            else (None, w)) of
        (Some err, w1) \<Rightarrow> (Inl err, w1)
      | (None, w1) \<Rightarrow>
          (case readAddressFile s w1 of
             Inl err \<Rightarrow> (Inl err, w1)
           | Inr addrs \<Rightarrow>
               if addr \<notin> set addrs then (Inr ''not present in'', w1)
               else
                 (let i = Index addrs addr in
                  case Delete addrs i (i + 1) of
                    None \<Rightarrow> (Inl SlicePanic, w1)
                  | Some addrs' \<Rightarrow>
                      (case write_address_file (Join addrs' [CHR 0x0A] @ [CHR 0x0A]) w1 of
                         (Some err, w2) \<Rightarrow> (Inl err, w2)
                       | (None, w2) \<Rightarrow> (Inr ''deleted from'', w2)))))"

subsection \<open>The log tail worker: one line of the follow process\<close>

text \<open>What the loop body of \<^verbatim>\<open>scanner\<close> does with one matched address, and the loop
  over \<^verbatim>\<open>s.Patterns\<close> that runs for each line received on \<^verbatim>\<open>tailStdout\<close>. An error
  ends the worker; the world it leaves behind is returned with it.\<close>

definition process_address :: "scanner \<Rightarrow> string \<Rightarrow> world \<Rightarrow> error option \<times> world" where
  "process_address s addr w =
     (case writeTimeoutFile s addr w of
        (Some err, w1) \<Rightarrow> (Some (Errorf ''scanner: writeTimeoutFile'' err), w1)
      | (None, w1) \<Rightarrow>
          (case addAddress s addr w1 of
             (Inl err, w2) \<Rightarrow> (Some (Errorf ''scanner: addAddress'' err), w2)
           | (Inr action, w2) \<Rightarrow> (None, w2)))"

fun match_patterns :: "scanner \<Rightarrow> regexp list \<Rightarrow> string \<Rightarrow> world \<Rightarrow> error option \<times> world" where
  "match_patterns s [] line w = (None, w)"
| "match_patterns s (pattern # patterns) line w =
     (let match = pattern line in
      if length match > 1 then
        (case process_address s (match ! 1) w of
           (Some err, w1) \<Rightarrow> (Some err, w1)
         | (None, w1) \<Rightarrow> match_patterns s patterns line w1)
      else match_patterns s patterns line w)"

definition stdout_line :: "scanner \<Rightarrow> string \<Rightarrow> world \<Rightarrow> error option \<times> world" where
  "stdout_line s line w = match_patterns s (Patterns s) line w"

subsection \<open>The reaper: one tick\<close>

text \<open>The body of the \<^verbatim>\<open>ticker.C\<close> case of \<^verbatim>\<open>reaper\<close>: the first loop collects the
  names of the expired regular files, the second removes each of them from both stores.\<close>

fun expired_entries ::
  "scanner \<Rightarrow> world \<Rightarrow> (string \<times> entry) list \<Rightarrow> string list \<Rightarrow> error + string list" where
  "expired_entries s w [] expiredAddrs = Inr expiredAddrs"
| "expired_entries s w ((addr, e) # entries) expiredAddrs =
     (case e of
        Regular _ \<Rightarrow>
          (case read_timeout_entry addr w of
             Inl err \<Rightarrow> Inl (Fatal err)
           | Inr timeData \<Rightarrow>
               (case UnmarshalText timeData of
                  None \<Rightarrow> Inl (Fatal (UnmarshalFailed (TimeoutDir s) addr))
                | Some expiration \<Rightarrow>
                    if now w \<ge> expiration
                    then expired_entries s w entries (expiredAddrs @ [addr])
                    else expired_entries s w entries expiredAddrs))
      | _ \<Rightarrow> expired_entries s w entries expiredAddrs)"

fun reap :: "scanner \<Rightarrow> string list \<Rightarrow> world \<Rightarrow> error option \<times> world" where
  "reap s [] w = (None, w)"
| "reap s (addr # addrs) w =
     (case removeAddress s addr w of
        (Inl err, w1) \<Rightarrow> (Some (Fatal (Errorf ''reaper: removeAddress failed'' err)), w1)
      | (Inr action, w1) \<Rightarrow>
          (case deleteTimeoutFile s addr w1 of
             (Some err, w2) \<Rightarrow> (Some (Fatal err), w2)
           | (None, w2) \<Rightarrow> reap s addrs w2))"

definition reaper_tick :: "scanner \<Rightarrow> world \<Rightarrow> error option \<times> world" where
  "reaper_tick s w =
     (case ReadDir w of
        Inl err \<Rightarrow> (Some (Fatal err), w)
      | Inr entries \<Rightarrow>
          (case expired_entries s w entries [] of
             Inl err \<Rightarrow> (Some err, w)
           | Inr expiredAddrs \<Rightarrow> reap s expiredAddrs w))"

subsection \<open>Construction\<close>

text \<open>The settings that \<^verbatim>\<open>NewScanner\<close> reads through \<^verbatim>\<open>ViperGetString\<close> and
  \<^verbatim>\<open>ViperGetBool\<close>. \<^verbatim>\<open>time.ParseDuration\<close> and \<^verbatim>\<open>regexp.Compile\<close> are parameters
  of the model: \<open>None\<close> is their error.\<close>

record settings =
  timeout_seconds :: string
  interval_seconds :: string
  add_command :: string
  delete_command :: string
  verbose_setting :: bool

text \<open>Modelled from the spec: \<^verbatim>\<open>IsDir\<close> and \<^verbatim>\<open>IsFile\<close> are helpers of the package
  whose source is not at hand. The spec has construction ensure that the timeout
  directory and the watchlist file exist, and synthesize a record for each address
  lacking one; so \<open>IsDir\<close> is taken as "the directory exists" and \<open>IsFile\<close> as "a regular
  file exists at the path".\<close>

definition IsDir :: "world \<Rightarrow> bool" where
  "IsDir w = (timeout_dir w \<noteq> None)"

definition IsFile :: "world \<Rightarrow> bool" where
  "IsFile w = (address_file w \<noteq> None)"

definition IsFile_timeout :: "string \<Rightarrow> world \<Rightarrow> bool" where
  "IsFile_timeout addr w =
     (case timeout_dir w of
        None \<Rightarrow> False
      | Some d \<Rightarrow> entry_name addr \<and> (case map_of d addr of Some (Regular _) \<Rightarrow> True | _ \<Rightarrow> False))"

definition Mkdir :: "world \<Rightarrow> error option \<times> world" where
  "Mkdir w =
     (if read_only w \<or> timeout_dir w \<noteq> None then (Some (MkdirFailed []), w)
      else (None, w\<lparr>timeout_dir := Some []\<rparr>))"

definition command_line :: "string \<Rightarrow> string \<times> string list" where
  "command_line text = (case Split text (CHR '' '') of [] \<Rightarrow> ([], []) | c # args \<Rightarrow> (c, args))"

fun compile_patterns ::
  "(string \<Rightarrow> regexp option) \<Rightarrow> string list \<Rightarrow> regexp list \<Rightarrow> error + regexp list" where
  "compile_patterns Compile [] res = Inr res"
| "compile_patterns Compile (pattern # patterns) res =
     (case Compile pattern of
        None \<Rightarrow> Inl (Errorf ''failed regex compile'' (CompileFailed pattern))
      | Some re \<Rightarrow> compile_patterns Compile patterns (res @ [re]))"

fun restore_timeouts :: "scanner \<Rightarrow> string list \<Rightarrow> world \<Rightarrow> error option \<times> world" where
  "restore_timeouts s [] w = (None, w)"
| "restore_timeouts s (addr # addrs) w =
     (if \<not> IsFile_timeout addr w then
        (case writeTimeoutFile s addr w of
           (Some err, w1) \<Rightarrow> (Some err, w1)
         | (None, w1) \<Rightarrow> restore_timeouts s addrs w1)
      else restore_timeouts s addrs w)"

text \<open>The \<^verbatim>\<open>Scanner\<close> that \<^verbatim>\<open>NewScanner\<close> fills in from its arguments and
  the settings (the channels and the lock belong to the coordinator above).\<close>

definition new_scanner ::
  "settings \<Rightarrow> string \<Rightarrow> string \<Rightarrow> string \<Rightarrow> int \<Rightarrow> int \<Rightarrow> regexp list \<Rightarrow> scanner" where
  "new_scanner cfg logFile addressFile timeoutDir timeout interval res =
     \<lparr>LogFile = logFile, AddressFile = addressFile, TimeoutDir = timeoutDir,
      AddressTimeout = timeout, TickInterval = interval, Patterns = res,
      AddCommand = fst (command_line (add_command cfg)),
      AddArgs = snd (command_line (add_command cfg)),
      DeleteCommand = fst (command_line (delete_command cfg)),
      DeleteArgs = snd (command_line (delete_command cfg)),
      verbose = verbose_setting cfg\<rparr>"

definition NewScanner ::
  "(string \<Rightarrow> int option) \<Rightarrow> (string \<Rightarrow> regexp option) \<Rightarrow> settings \<Rightarrow>
   string \<Rightarrow> string \<Rightarrow> string \<Rightarrow> string list \<Rightarrow> world \<Rightarrow> (error + scanner) \<times> world" where
  "NewScanner ParseDuration Compile cfg logFile addressFile timeoutDir patterns w =
     (case ParseDuration (timeout_seconds cfg @ ''s'') of
        None \<Rightarrow>
          (Inl (Errorf ''ParseDuration (timeout_seconds) failed''
                  (ParseDurationFailed (timeout_seconds cfg @ ''s''))), w)
      | Some timeout \<Rightarrow>
     (case ParseDuration (interval_seconds cfg @ ''s'') of
        None \<Rightarrow>
          (Inl (Errorf ''ParseDuration (interval_seconds) failed''
                  (ParseDurationFailed (interval_seconds cfg @ ''s''))), w)
      | Some interval \<Rightarrow>
     (case compile_patterns Compile patterns [] of
        Inl err \<Rightarrow> (Inl err, w)
      | Inr res \<Rightarrow>
     (let s = new_scanner cfg logFile addressFile timeoutDir timeout interval res
      in
     (case (if \<not> IsDir w then Mkdir w else (None, w)) of
        (Some err, w1) \<Rightarrow> (Inl err, w1)
      | (None, w1) \<Rightarrow>
     (case (if \<not> IsFile w1 then write_address_file [] w1 else (None, w1)) of
        (Some err, w2) \<Rightarrow> (Inl err, w2)
      | (None, w2) \<Rightarrow>
     (case readAddressFile s w2 of
        Inl err \<Rightarrow> (Inl err, w2)
      | Inr addrs \<Rightarrow>
     (case restore_timeouts s addrs w2 of
        (Some err, w3) \<Rightarrow> (Inl err, w3)
      | (None, w3) \<Rightarrow> (Inr s, w3)))))))))"

section \<open>Notions used to state the properties\<close>

text \<open>A line that \<^verbatim>\<open>readAddressFile\<close> accepts and returns as it stands: not empty,
  free of surrounding white space, containing the address shape, and short enough for
  the line scanner.\<close>

definition address_line :: "string \<Rightarrow> bool" where
  "address_line a =
     (a \<noteq> [] \<and> TrimSpace a = a \<and> MatchString a \<and> CHR 0x0A \<notin> set a \<and> length a < MaxScanTokenSize)"

text \<open>An optional hook (the add or delete command): it is in order when it is not
  configured or the command succeeds; running it only extends \<open>exec_log\<close>.\<close>

definition hook_ok :: "world \<Rightarrow> string \<Rightarrow> string list \<Rightarrow> string \<Rightarrow> bool" where
  "hook_ok w command args addr = (command = [] \<or> exec_ok w command (args @ [addr]))"

definition after_hook :: "world \<Rightarrow> string \<Rightarrow> string list \<Rightarrow> string \<Rightarrow> world" where
  "after_hook w command args addr =
     (if command = [] then w else w\<lparr>exec_log := exec_log w @ [(command, args @ [addr])]\<rparr>)"

text \<open>A run of one to three ASCII digits.\<close>

definition octet :: "string \<Rightarrow> bool" where
  "octet d = (1 \<le> length d \<and> length d \<le> 3 \<and> (\<forall>c \<in> set d. is_digit c))"

text \<open>The spec's words for a line: every configured pattern is applied, in order, and
  the first group of each pattern that matches is processed. \<open>matched_addresses\<close> lists
  those groups in pattern order; \<open>process_all\<close> processes a list of addresses one after
  another and stops at the first error.\<close>

definition matched_addresses :: "regexp list \<Rightarrow> string \<Rightarrow> string list" where
  "matched_addresses patterns line =
     map (\<lambda>pattern. pattern line ! 1) (filter (\<lambda>pattern. 1 < length (pattern line)) patterns)"

fun process_all :: "scanner \<Rightarrow> string list \<Rightarrow> world \<Rightarrow> error option \<times> world" where
  "process_all s [] w = (None, w)"
| "process_all s (addr # addrs) w =
     (case process_address s addr w of
        (Some err, w1) \<Rightarrow> (Some err, w1)
      | (None, w1) \<Rightarrow> process_all s addrs w1)"

text \<open>The entries that running a configured hook once per address adds to \<open>exec_log\<close>,
  and the statement that the record of an address in \<open>w'\<close> has the expiration computed
  from the clock of \<open>w\<close>.\<close>

definition hook_calls :: "string \<Rightarrow> string list \<Rightarrow> string list \<Rightarrow> (string \<times> string list) list" where
  "hook_calls command args addrs =
     (if command = [] then [] else map (\<lambda>addr. (command, args @ [addr])) addrs)"

definition fresh_record :: "scanner \<Rightarrow> world \<Rightarrow> world \<Rightarrow> string \<Rightarrow> bool" where
  "fresh_record s w w' addr =
     (case timeout_dir w' of
        None \<Rightarrow> False
      | Some d \<Rightarrow> map_of d addr = Some (Regular (Stamp (now w + AddressTimeout s))))"

text \<open>A directory as a file system lists it: no name twice, every name a single path
  element. An entry is expired at \<open>t\<close> when it is a regular file whose timestamp is not
  after \<open>t\<close>; it parses unless it is a regular file with other content.\<close>

definition directory_ok :: "(string \<times> entry) list \<Rightarrow> bool" where
  "directory_ok d = (distinct (map fst d) \<and> (\<forall>n \<in> set (map fst d). entry_name n))"

definition is_expired :: "int \<Rightarrow> string \<times> entry \<Rightarrow> bool" where
  "is_expired t ne = (case snd ne of Regular (Stamp expiration) \<Rightarrow> expiration \<le> t | _ \<Rightarrow> False)"

definition parses :: "string \<times> entry \<Rightarrow> bool" where
  "parses ne = (case snd ne of Regular (Junk _) \<Rightarrow> False | _ \<Rightarrow> True)"

text \<open>Entries for which \<^verbatim>\<open>entry.Type().IsRegular()\<close> is false.\<close>

definition non_regular :: "entry \<Rightarrow> bool" where
  "non_regular e = (case e of Regular _ \<Rightarrow> False | _ \<Rightarrow> True)"

text \<open>The layout of the watchlist file: \<open>one_per_line\<close> writes each address on a line
  of its own, ended by a newline; \<open>file_layout\<close> says of a file content that it is
  empty or ends with a newline, that each of its lines is an address line (so none is
  blank) and that no line occurs twice.\<close>

definition one_per_line :: "string list \<Rightarrow> string" where
  "one_per_line as = concat (map (\<lambda>a. a @ [CHR 0x0A]) as)"

definition file_layout :: "string \<Rightarrow> bool" where
  "file_layout body =
     ((body = [] \<or> last body = CHR 0x0A)
      \<and> (\<forall>l \<in> set (raw_lines [] body). address_line l)
      \<and> distinct (raw_lines [] body))"

section \<open>Concrete states used to exercise the theorems\<close>

text \<open>A coordinator with the three workers registered and the tail process running; a
  scanner with both hooks configured and a five second timeout; a world with two watched
  addresses, one whose record expires exactly now and one a nanosecond later, and a
  subdirectory in the timeout directory; variants of that world; and three stand-ins for
  compiled patterns, given by what \<^verbatim>\<open>FindStringSubmatch\<close> returns on one log line.\<close>

definition running_coordinator :: coordinator where
  "running_coordinator =
     \<lparr>tail = Some (Cmd (Some 4242)),
      active = [''reaper'' \<mapsto> ''true'', ''scanner'' \<mapsto> ''true'', ''handler'' \<mapsto> ''true''],
      reaperStop = Chan 0 False, scannerStop = Chan 0 False, handlerStop = Chan 0 False,
      killed = [], waited = []\<rparr>"

definition demo_scanner :: scanner where
  "demo_scanner =
     \<lparr>LogFile = ''/var/log/authlog'', AddressFile = ''/var/db/watchlist'',
      TimeoutDir = ''/var/db/timeouts'', AddressTimeout = 5000000000,
      TickInterval = 1000000000, Patterns = [],
      AddCommand = ''pfctl'', AddArgs = [''-t'', ''watch'', ''-T'', ''add''],
      DeleteCommand = ''pfctl'', DeleteArgs = [''-t'', ''watch'', ''-T'', ''delete''],
      verbose = False\<rparr>"

definition demo_world :: world where
  "demo_world =
     \<lparr>now = 1700000000000000000,
      address_file = Some (''10.0.0.5'' @ [CHR 0x0A] @ ''192.168.1.7'' @ [CHR 0x0A]),
      timeout_dir = Some [(''10.0.0.5'', Regular (Stamp 1700000000000000000)),
                          (''192.168.1.7'', Regular (Stamp 1700000000000000001)),
                          (''lost+found'', Directory)],
      read_only = False,
      exec_ok = (\<lambda>command args. True),
      exec_log = []\<rparr>"

definition hook_fails_world :: world where
  "hook_fails_world = demo_world\<lparr>exec_ok := (\<lambda>command args. False)\<rparr>"

definition demo_settings :: settings where
  "demo_settings =
     \<lparr>timeout_seconds = ''300'', interval_seconds = ''60'',
      add_command = ''pfctl -t watch -T add'', delete_command = ''pfctl -t watch -T delete'',
      verbose_setting = False\<rparr>"

definition demo_ParseDuration :: "string \<Rightarrow> int option" where
  "demo_ParseDuration text =
     (if text = ''300s'' then Some 300000000000
      else if text = ''60s'' then Some 60000000000 else None)"

definition demo_Compile :: "string \<Rightarrow> regexp option" where
  "demo_Compile pattern = (if pattern = ''('' then None else Some (\<lambda>line. []))"

definition corrupt_world :: world where
  "corrupt_world =
     demo_world\<lparr>address_file := Some (''10.0.0.5'' @ [CHR 0x0A] @ ''not-an-ip'' @ [CHR 0x0A])\<rparr>"

definition auth_line :: string where
  "auth_line = ''Failed password for root from 203.0.113.7 port 22''"

definition from_pattern :: regexp where
  "from_pattern line = (if line = auth_line then [''from 203.0.113.7'', ''203.0.113.7''] else [])"

definition plain_pattern :: regexp where
  "plain_pattern line = (if line = auth_line then [''Failed password''] else [])"

definition port_pattern :: regexp where
  "port_pattern line = (if line = auth_line then [''203.0.113.7 port'', ''203.0.113.7''] else [])"

definition auth_scanner :: scanner where
  "auth_scanner = demo_scanner\<lparr>Patterns := [from_pattern, plain_pattern, port_pattern]\<rparr>"

definition doubled_world :: world where
  "doubled_world =
     demo_world\<lparr>address_file := Some (''10.0.0.5'' @ [CHR 0x0A] @ ''10.0.0.5'' @ [CHR 0x0A])\<rparr>"

definition single_world :: world where
  "single_world = demo_world\<lparr>address_file := Some (''10.0.0.5'' @ [CHR 0x0A])\<rparr>"

definition spaced_world :: world where
  "spaced_world =
     demo_world\<lparr>address_file := Some ('' 10.0.0.5'' @ [CHR 0x0A]),
                timeout_dir := Some [('' 10.0.0.5'', Regular (Stamp 1700000000000000000))]\<rparr>"

section \<open>Shutdown runs its teardown once\<close>

lemma shutdown_marked:
  "active s ''shutdown'' = Some c \<Longrightarrow> shutdown caller s = Returns s"
  by (simp add: shutdown_def)

lemma shutdowns_marked:
  "active s ''shutdown'' = Some c \<Longrightarrow> shutdowns cs s = Returns s"
  by (induction cs) (simp_all add: shutdown_marked and_then_def)

lemma send_idle: "idle c \<Longrightarrow> send c = Returns (Chan (buffered c + 1) False)"
  by (simp add: idle_def send_def)

lemma shutdown_first:
  assumes "active s ''shutdown'' = None"
    and "idle (reaperStop s)" and "idle (scannerStop s)" and "idle (handlerStop s)"
  shows "shutdown caller s =
     Returns (s\<lparr>active := (active s)(''shutdown'' \<mapsto> caller),
                tail := None,
                killed := killed s @ tail_pids s,
                waited := waited s @ tail_pids s,
                reaperStop := notified s ''reaper'' (reaperStop s),
                scannerStop := notified s ''scanner'' (scannerStop s),
                handlerStop := notified s ''handler'' (handlerStop s)\<rparr>)"
  using assms
  by (auto simp: shutdown_def and_then_def teardown_tail_def notify_reaper_def
      notify_scanner_def notify_handler_def notified_def tail_pids_def send_idle
      split: option.splits cmd.splits)

text \<open>
  Claim C1. Shutdown is idempotent. In a state where the marker \<open>''shutdown''\<close> is not
  yet stored and the stop channels are empty and open, the first call returns, stores the
  marker with its caller, kills and waits for the tail process when one is registered,
  and puts one notification on the stop channel of each worker that is registered as
  active and none on the others. Whatever calls follow, by whatever callers, the state
  after all of them is the state after the first call: nothing more is killed, waited for
  or sent. More generally a call in any state that holds the marker returns that state
  unchanged.
\<close>

theorem shutdown_idempotent:
  assumes "active s ''shutdown'' = None"
    and "idle (reaperStop s)" and "idle (scannerStop s)" and "idle (handlerStop s)"
  shows "\<exists>s'. shutdown first s = Returns s'
           \<and> active s' ''shutdown'' = Some first
           \<and> tail s' = None
           \<and> killed s' = killed s @ tail_pids s
           \<and> waited s' = waited s @ tail_pids s
           \<and> reaperStop s' = notified s ''reaper'' (reaperStop s)
           \<and> scannerStop s' = notified s ''scanner'' (scannerStop s)
           \<and> handlerStop s' = notified s ''handler'' (handlerStop s)
           \<and> shutdowns later s' = Returns s'
           \<and> shutdowns (first # later) s = Returns s'
           \<and> (\<forall>t caller. active t ''shutdown'' \<noteq> None \<longrightarrow> shutdown caller t = Returns t)"
proof -
  let ?s' = "s\<lparr>active := (active s)(''shutdown'' \<mapsto> first),
                tail := None,
                killed := killed s @ tail_pids s,
                waited := waited s @ tail_pids s,
                reaperStop := notified s ''reaper'' (reaperStop s),
                scannerStop := notified s ''scanner'' (scannerStop s),
                handlerStop := notified s ''handler'' (handlerStop s)\<rparr>"
  have first: "shutdown first s = Returns ?s'"
    by (rule shutdown_first [OF assms])
  have marked: "active ?s' ''shutdown'' = Some first"
    by simp
  have later: "shutdowns later ?s' = Returns ?s'"
    by (rule shutdowns_marked [OF marked])
  have all: "shutdowns (first # later) s = Returns ?s'"
    by (simp add: first later and_then_def)
  have any: "\<forall>t caller. active t ''shutdown'' \<noteq> None \<longrightarrow> shutdown caller t = Returns t"
    by (auto simp: shutdown_marked)
  show ?thesis
    by (rule exI [of _ ?s']) (simp add: first later and_then_def any)
qed

theorem shutdown_idempotent_witness:
  "active running_coordinator ''shutdown'' = None
   \<and> idle (reaperStop running_coordinator)
   \<and> idle (scannerStop running_coordinator)
   \<and> idle (handlerStop running_coordinator)
   \<and> (\<exists>s'. shutdown ''reaper'' running_coordinator = Returns s'
          \<and> killed s' = [4242] \<and> waited s' = [4242]
          \<and> reaperStop s' = Chan 1 False
          \<and> shutdowns [''scanner'', ''handler'', ''stop''] s' = Returns s'
          \<and> shutdown ''stop'' s' = Returns s')"
proof -
  have h1: "active running_coordinator ''shutdown'' = None"
    by (simp add: running_coordinator_def)
  have h2: "idle (reaperStop running_coordinator)"
    and h3: "idle (scannerStop running_coordinator)"
    and h4: "idle (handlerStop running_coordinator)"
    by (simp_all add: running_coordinator_def idle_def)
  from shutdown_idempotent [OF h1 h2 h3 h4, of "''reaper''" "[''scanner'', ''handler'', ''stop'']"]
  obtain s' where s': "shutdown ''reaper'' running_coordinator = Returns s'"
    "active s' ''shutdown'' = Some ''reaper''"
    "killed s' = killed running_coordinator @ tail_pids running_coordinator"
    "waited s' = waited running_coordinator @ tail_pids running_coordinator"
    "reaperStop s' = notified running_coordinator ''reaper'' (reaperStop running_coordinator)"
    "shutdowns [''scanner'', ''handler'', ''stop''] s' = Returns s'"
    "\<forall>t caller. active t ''shutdown'' \<noteq> None \<longrightarrow> shutdown caller t = Returns t"
    by blast
  have "killed s' = [4242]" "waited s' = [4242]" "reaperStop s' = Chan 1 False"
    using s'(3,4,5) by (simp_all add: running_coordinator_def tail_pids_def notified_def)
  moreover have "shutdown ''stop'' s' = Returns s'"
    using s'(2,7) by simp
  ultimately show ?thesis
    using h1 h2 h3 h4 s'(1,6) by blast
qed

section \<open>Trimming and line scanning\<close>

lemma TrimLeft_unfold:
  "TrimLeft s = (case space_prefix s of None \<Rightarrow> s | Some q \<Rightarrow> TrimLeft (drop (length q) s))"
  by (rule TrimLeft.simps)

lemma TrimRight_unfold:
  "TrimRight s =
     (case space_suffix s of None \<Rightarrow> s | Some q \<Rightarrow> TrimRight (take (length s - length q) s))"
  by (rule TrimRight.simps)

declare TrimLeft.simps [simp del] TrimRight.simps [simp del]

lemma TrimLeft_suffix: "suffix (TrimLeft s) s"
proof (induction s rule: TrimLeft.induct)
  case (1 s)
  show ?case
  proof (cases "space_prefix s")
    case None
    then show ?thesis by (simp add: TrimLeft_unfold [of s])
  next
    case (Some q)
    with 1 have "suffix (TrimLeft (drop (length q) s)) (drop (length q) s)" by simp
    then have "suffix (TrimLeft (drop (length q) s)) s"
      using suffix_drop suffix_order.trans by blast
    with Some show ?thesis by (simp add: TrimLeft_unfold [of s])
  qed
qed

lemma TrimLeft_clean: "space_prefix (TrimLeft s) = None"
proof (induction s rule: TrimLeft.induct)
  case (1 s)
  show ?case
  proof (cases "space_prefix s")
    case None
    then show ?thesis by (simp add: TrimLeft_unfold [of s])
  next
    case (Some q)
    with 1 show ?thesis by (simp add: TrimLeft_unfold [of s])
  qed
qed

lemma TrimLeft_id: "space_prefix s = None \<Longrightarrow> TrimLeft s = s"
  by (simp add: TrimLeft_unfold [of s])

lemma TrimRight_prefix: "prefix (TrimRight s) s"
proof (induction s rule: TrimRight.induct)
  case (1 s)
  show ?case
  proof (cases "space_suffix s")
    case None
    then show ?thesis by (simp add: TrimRight_unfold [of s])
  next
    case (Some q)
    with 1 have "prefix (TrimRight (take (length s - length q) s)) (take (length s - length q) s)"
      by simp
    then have "prefix (TrimRight (take (length s - length q) s)) s"
      using take_is_prefix prefix_order.trans by blast
    with Some show ?thesis by (simp add: TrimRight_unfold [of s])
  qed
qed

lemma TrimRight_clean: "space_suffix (TrimRight s) = None"
proof (induction s rule: TrimRight.induct)
  case (1 s)
  show ?case
  proof (cases "space_suffix s")
    case None
    then show ?thesis by (simp add: TrimRight_unfold [of s])
  next
    case (Some q)
    with 1 show ?thesis by (simp add: TrimRight_unfold [of s])
  qed
qed

lemma TrimRight_id: "space_suffix s = None \<Longrightarrow> TrimRight s = s"
  by (simp add: TrimRight_unfold [of s])

lemma space_prefix_None_prefix:
  assumes "space_prefix s = None" and "prefix t s"
  shows "space_prefix t = None"
proof -
  have "\<forall>q \<in> set space_runes. \<not> prefix q s"
    using assms(1) by (simp add: space_prefix_def find_None_iff)
  then have "\<forall>q \<in> set space_runes. \<not> prefix q t"
    using assms(2) prefix_order.trans by blast
  then show ?thesis by (simp add: space_prefix_def find_None_iff)
qed

lemma TrimSpace_clean:
  "space_prefix (TrimSpace s) = None \<and> space_suffix (TrimSpace s) = None"
  unfolding TrimSpace_def
  using TrimLeft_clean TrimRight_prefix TrimRight_clean space_prefix_None_prefix by blast

lemma TrimSpace_id:
  "space_prefix s = None \<Longrightarrow> space_suffix s = None \<Longrightarrow> TrimSpace s = s"
  by (simp add: TrimSpace_def TrimLeft_id TrimRight_id)

lemma TrimSpace_idem: "TrimSpace (TrimSpace s) = TrimSpace s"
  using TrimSpace_clean TrimSpace_id by blast

lemma TrimSpace_sublist: "\<exists>p q. s = p @ TrimSpace s @ q"
proof -
  obtain p where p: "s = p @ TrimLeft s" using TrimLeft_suffix [of s] by (auto simp: suffix_def)
  obtain q where q: "TrimLeft s = TrimRight (TrimLeft s) @ q"
    using TrimRight_prefix [of "TrimLeft s"] by (auto simp: prefix_def)
  from p q have "s = p @ TrimSpace s @ q" by (simp add: TrimSpace_def)
  then show ?thesis by blast
qed

lemma TrimSpace_set: "set (TrimSpace s) \<subseteq> set s"
proof -
  obtain p q where "s = p @ TrimSpace s @ q" using TrimSpace_sublist by blast
  then have "set s = set p \<union> set (TrimSpace s) \<union> set q" by (metis set_append Un_assoc)
  then show ?thesis by blast
qed

lemma TrimSpace_length: "length (TrimSpace s) \<le> length s"
proof -
  obtain p q where "s = p @ TrimSpace s @ q" using TrimSpace_sublist by blast
  then have "length s = length p + length (TrimSpace s) + length q" by (metis length_append add.assoc)
  then show ?thesis by simp
qed

lemma TrimSpace_fixed_clean:
  assumes "TrimSpace s = s"
  shows "space_prefix s = None \<and> space_suffix s = None"
  using TrimSpace_clean [of s] assms by simp

lemma space_suffix_CR:
  assumes "s \<noteq> []" and "last s = CHR 0x0D"
  shows "space_suffix s \<noteq> None"
proof -
  have "suffix [CHR 0x0D] s"
    using assms by (metis append_butlast_last_id suffixI)
  moreover have "[CHR 0x0D] \<in> set space_runes" by (simp add: space_runes_def)
  ultimately show ?thesis by (auto simp: space_suffix_def find_None_iff)
qed

lemma dropCR_clean: "space_suffix s = None \<Longrightarrow> dropCR s = s"
  using space_suffix_CR [of s] by (auto simp: dropCR_def)

lemma dropCR_set: "set (dropCR s) \<subseteq> set s"
  by (auto simp: dropCR_def dest: in_set_butlastD)

lemma dropCR_length: "length (dropCR s) \<le> length s"
  by (simp add: dropCR_def)

lemma raw_lines_no_newline_all:
  "CHR 0x0A \<notin> set cur \<Longrightarrow> \<forall>l \<in> set (raw_lines cur cs). CHR 0x0A \<notin> set l"
proof (induction cs arbitrary: cur)
  case Nil
  then show ?case by simp
next
  case (Cons c cs)
  show ?case
  proof (cases "c = CHR 0x0A")
    case True
    have "\<forall>l \<in> set (raw_lines [] cs). CHR 0x0A \<notin> set l" by (rule Cons.IH) simp
    with True Cons.prems show ?thesis by simp
  next
    case False
    with Cons.prems have "CHR 0x0A \<notin> set (cur @ [c])" by simp
    from Cons.IH [OF this] False show ?thesis by simp
  qed
qed

lemma raw_lines_no_newline:
  "CHR 0x0A \<notin> set cur \<Longrightarrow> l \<in> set (raw_lines cur cs) \<Longrightarrow> CHR 0x0A \<notin> set l"
  using raw_lines_no_newline_all by blast

lemma raw_lines_line:
  "CHR 0x0A \<notin> set a \<Longrightarrow> raw_lines cur (a @ CHR 0x0A # rest) = (cur @ a) # raw_lines [] rest"
  by (induction a arbitrary: cur) auto

lemma raw_lines_concat:
  "\<forall>a \<in> set as. CHR 0x0A \<notin> set a \<Longrightarrow>
     raw_lines [] (concat (map (\<lambda>a. a @ [CHR 0x0A]) as)) = as"
proof (induction as)
  case Nil
  then show ?case by simp
next
  case (Cons a as)
  then show ?case using raw_lines_line [of a "[]" "concat (map (\<lambda>a. a @ [CHR 0x0A]) as)"] by simp
qed

lemma Join_newline:
  "as \<noteq> [] \<Longrightarrow> Join as [CHR 0x0A] @ [CHR 0x0A] = concat (map (\<lambda>a. a @ [CHR 0x0A]) as)"
  by (induction as "[CHR 0x0A]" rule: Join.induct) auto

lemma scan_addresses_line:
  assumes "address_line a"
  shows "scan_addresses s (a # ls) addrs = scan_addresses s ls (addrs @ [a])"
proof -
  have "space_suffix a = None" using assms TrimSpace_fixed_clean by (simp add: address_line_def)
  then have "dropCR a = a" by (rule dropCR_clean)
  then show ?thesis using assms by (simp add: address_line_def Let_def)
qed

lemma scan_addresses_lines:
  "\<forall>a \<in> set as. address_line a \<Longrightarrow> scan_addresses s as addrs = Inr (addrs @ as)"
  by (induction as arbitrary: addrs) (simp_all add: scan_addresses_line del: scan_addresses.simps(2))

lemma scan_addresses_result:
  "scan_addresses s ls addrs = Inr r \<Longrightarrow>
     r = addrs @ filter (\<lambda>a. a \<noteq> []) (map (\<lambda>l. TrimSpace (dropCR l)) ls)
     \<and> (\<forall>l \<in> set ls. length l < MaxScanTokenSize
            \<and> (TrimSpace (dropCR l) = [] \<or> MatchString (TrimSpace (dropCR l))))"
proof (induction ls arbitrary: addrs)
  case Nil
  then show ?case by simp
next
  case (Cons l ls)
  from Cons.prems have short: "length l < MaxScanTokenSize"
    by (simp split: if_splits)
  show ?case
  proof (cases "TrimSpace (dropCR l) = []")
    case True
    with Cons.prems short have "scan_addresses s ls addrs = Inr r" by simp
    from Cons.IH [OF this] True short show ?thesis by simp
  next
    case False
    with Cons.prems short have m: "MatchString (TrimSpace (dropCR l))"
      and "scan_addresses s ls (addrs @ [TrimSpace (dropCR l)]) = Inr r"
      by (simp_all add: Let_def split: if_splits)
    from Cons.IH [OF this(2)] False short m show ?thesis by simp
  qed
qed

lemma address_line_TrimSpace:
  assumes "CHR 0x0A \<notin> set l" and "length l < MaxScanTokenSize"
    and "TrimSpace (dropCR l) \<noteq> []" and "MatchString (TrimSpace (dropCR l))"
  shows "address_line (TrimSpace (dropCR l))"
proof -
  have "set (TrimSpace (dropCR l)) \<subseteq> set l"
    using TrimSpace_set dropCR_set by blast
  moreover have "length (TrimSpace (dropCR l)) \<le> length l"
    using TrimSpace_length [of "dropCR l"] dropCR_length [of l] by linarith
  ultimately show ?thesis
    using assms by (auto simp: address_line_def TrimSpace_idem)
qed

lemma readAddressFile_address_lines:
  assumes "readAddressFile s w = Inr addrs" and "a \<in> set addrs"
  shows "address_line a"
proof -
  from assms(1) obtain body where body: "address_file w = Some body"
    and scan: "scan_addresses s (raw_lines [] body) [] = Inr addrs"
    by (auto simp: readAddressFile_def split: option.splits)
  from scan_addresses_result [OF scan] assms(2)
  obtain l where l: "l \<in> set (raw_lines [] body)" "a = TrimSpace (dropCR l)" "a \<noteq> []"
    "length l < MaxScanTokenSize" "MatchString a"
    by auto
  have "CHR 0x0A \<notin> set l" using raw_lines_no_newline [of "[]" l body] l(1) by simp
  then show ?thesis using address_line_TrimSpace [of l] l by simp
qed

lemma readAddressFile_written:
  assumes "\<forall>a \<in> set as. address_line a"
    and "address_file w = Some (Join as [CHR 0x0A] @ [CHR 0x0A])"
  shows "readAddressFile s w = Inr as"
proof (cases "as = []")
  case True
  then show ?thesis using assms(2)
    by (simp add: readAddressFile_def MaxScanTokenSize_def dropCR_def TrimSpace_def
        TrimLeft_unfold [of "[]"] TrimRight_unfold [of "[]"] space_prefix_def space_suffix_def
        space_runes_def)
next
  case False
  have "\<forall>a \<in> set as. CHR 0x0A \<notin> set a" using assms(1) by (simp add: address_line_def)
  then have "raw_lines [] (Join as [CHR 0x0A] @ [CHR 0x0A]) = as"
    using False by (simp add: Join_newline raw_lines_concat)
  then show ?thesis using assms by (simp add: readAddressFile_def scan_addresses_lines)
qed

section \<open>The store operations\<close>

lemma readAddressFile_frame:
  "address_file w' = address_file w \<Longrightarrow> readAddressFile s w' = readAddressFile s w"
  by (simp add: readAddressFile_def)

lemma write_timeout_entry_ok:
  assumes "timeout_dir w = Some d" and "\<not> read_only w" and "entry_name name"
    and "map_of d name \<noteq> Some Directory" and "map_of d name \<noteq> Some Irregular"
  shows "write_timeout_entry name data w =
           (None, w\<lparr>timeout_dir := Some (AList.update name (Regular data) d)\<rparr>)"
  using assms by (auto simp: write_timeout_entry_def split: option.splits entry.splits)

lemma write_timeout_entry_None:
  assumes "write_timeout_entry name data w = (None, w1)"
  shows "\<exists>d. timeout_dir w = Some d \<and> \<not> read_only w \<and> entry_name name
           \<and> w1 = w\<lparr>timeout_dir := Some (AList.update name (Regular data) d)\<rparr>"
  using assms by (auto simp: write_timeout_entry_def split: option.splits entry.splits if_splits)

lemma write_timeout_entry_Some:
  "write_timeout_entry name data w = (Some e, w1) \<Longrightarrow> w1 = w"
  by (auto simp: write_timeout_entry_def split: option.splits entry.splits if_splits)

lemma writeTimeoutFile_None:
  assumes "writeTimeoutFile s addr w = (None, w1)"
  shows "\<exists>d. timeout_dir w = Some d \<and> \<not> read_only w \<and> entry_name addr
           \<and> w1 = w\<lparr>timeout_dir :=
                 Some (AList.update addr (Regular (Stamp (now w + AddressTimeout s))) d)\<rparr>"
  using assms
  by (auto simp: writeTimeoutFile_def MarshalText_def Let_def
      dest: write_timeout_entry_None split: if_splits)

lemma writeTimeoutFile_Some:
  "writeTimeoutFile s addr w = (Some e, w1) \<Longrightarrow> w1 = w"
  by (auto simp: writeTimeoutFile_def MarshalText_def Let_def
      dest: write_timeout_entry_Some split: if_splits)

lemma writeTimeoutFile_ok:
  assumes "timeout_dir w = Some d" and "\<not> read_only w" and "entry_name addr"
    and "map_of d addr \<noteq> Some Directory" and "map_of d addr \<noteq> Some Irregular"
    and "MarshalText (now w + AddressTimeout s) = Inr (Stamp (now w + AddressTimeout s))"
  shows "writeTimeoutFile s addr w =
           (None, w\<lparr>timeout_dir :=
              Some (AList.update addr (Regular (Stamp (now w + AddressTimeout s))) d)\<rparr>)"
  using assms by (simp add: writeTimeoutFile_def Let_def write_timeout_entry_ok)

lemma after_hook_fields [simp]:
  "address_file (after_hook w c args a) = address_file w"
  "timeout_dir (after_hook w c args a) = timeout_dir w"
  "now (after_hook w c args a) = now w"
  "read_only (after_hook w c args a) = read_only w"
  "exec_ok (after_hook w c args a) = exec_ok w"
  by (simp_all add: after_hook_def)

lemma readAddressFile_after_hook [simp]:
  "readAddressFile s (after_hook w c args a) = readAddressFile s w"
  by (rule readAddressFile_frame) simp

lemma Index_bounds: "a \<in> set xs \<Longrightarrow> 0 \<le> Index xs a \<and> Index xs a < int (length xs)"
proof (induction xs)
  case Nil
  then show ?case by simp
next
  case (Cons x xs)
  show ?case
  proof (cases "x = a")
    case True
    then show ?thesis by simp
  next
    case False
    with Cons.prems have "a \<in> set xs" by simp
    from Cons.IH [OF this] have "0 \<le> Index xs a" "Index xs a < int (length xs)" by simp_all
    moreover have "Index (x # xs) a = (if Index xs a < 0 then - 1 else Index xs a + 1)"
      using False by (simp add: Let_def)
    ultimately show ?thesis by simp
  qed
qed

lemma Delete_Index:
  "a \<in> set xs \<Longrightarrow> Delete xs (Index xs a) (Index xs a + 1) = Some (remove1 a xs)"
proof (induction xs)
  case Nil
  then show ?case by simp
next
  case (Cons x xs)
  show ?case
  proof (cases "x = a")
    case True
    then show ?thesis by (simp add: Delete_def)
  next
    case False
    with Cons.prems have in_xs: "a \<in> set xs" by simp
    from Index_bounds [OF in_xs] have b: "0 \<le> Index xs a" "Index xs a < int (length xs)" by simp_all
    from Cons.IH [OF in_xs] b
    have "take (nat (Index xs a)) xs @ drop (nat (Index xs a + 1)) xs = remove1 a xs"
      by (simp add: Delete_def split: if_splits)
    moreover have "nat (Index xs a + 1) = Suc (nat (Index xs a))"
      and "nat (Index xs a + 1 + 1) = Suc (Suc (nat (Index xs a)))"
      using b by simp_all
    moreover have "Index (x # xs) a = Index xs a + 1"
      using False b by (simp add: Let_def)
    ultimately show ?thesis using False b by (simp add: Delete_def)
  qed
qed

lemma hook_step:
  "(if c \<noteq> [] then exec c (args @ [a]) w else (None, w)) =
     (if hook_ok w c args a then None else Some (ExecFailed c (args @ [a])), after_hook w c args a)"
  by (simp add: exec_def hook_ok_def after_hook_def)

lemma removeAddress_absent_eq:
  assumes "readAddressFile s w = Inr addrs" and "addr \<notin> set addrs"
  shows "removeAddress s addr w =
     (if hook_ok w (DeleteCommand s) (DeleteArgs s) addr then Inr ''not present in''
      else Inl (ExecFailed (DeleteCommand s) (DeleteArgs s @ [addr])),
      after_hook w (DeleteCommand s) (DeleteArgs s) addr)"
  using assms unfolding removeAddress_def hook_step by simp

lemma removeAddress_present_eq:
  assumes "readAddressFile s w = Inr addrs" and "addr \<in> set addrs"
    and "hook_ok w (DeleteCommand s) (DeleteArgs s) addr" and "\<not> read_only w"
  shows "removeAddress s addr w =
     (Inr ''deleted from'',
      (after_hook w (DeleteCommand s) (DeleteArgs s) addr)
        \<lparr>address_file := Some (Join (remove1 addr addrs) [CHR 0x0A] @ [CHR 0x0A])\<rparr>)"
  using assms unfolding removeAddress_def hook_step
  by (simp add: Delete_Index write_address_file_def)

lemma addAddress_present_eq:
  assumes "readAddressFile s w = Inr addrs" and "addr \<in> set addrs"
  shows "addAddress s addr w =
     (if hook_ok w (AddCommand s) (AddArgs s) addr then Inr ''already present in''
      else Inl (ExecFailed (AddCommand s) (AddArgs s @ [addr])),
      after_hook w (AddCommand s) (AddArgs s) addr)"
  using assms unfolding addAddress_def hook_step by simp

lemma addAddress_absent_eq:
  assumes "readAddressFile s w = Inr addrs" and "addr \<notin> set addrs"
    and "hook_ok w (AddCommand s) (AddArgs s) addr" and "\<not> read_only w"
  shows "addAddress s addr w =
     (Inr ''added to'',
      (after_hook w (AddCommand s) (AddArgs s) addr)
        \<lparr>address_file := Some (Join (addrs @ [addr]) [CHR 0x0A] @ [CHR 0x0A])\<rparr>)"
  using assms unfolding addAddress_def hook_step
  by (simp add: write_address_file_def)

lemma addAddress_hook_failed:
  assumes "\<not> hook_ok w (AddCommand s) (AddArgs s) addr"
  shows "addAddress s addr w =
     (Inl (ExecFailed (AddCommand s) (AddArgs s @ [addr])),
      w\<lparr>exec_log := exec_log w @ [(AddCommand s, AddArgs s @ [addr])]\<rparr>)"
  using assms unfolding addAddress_def hook_step
  by (simp add: hook_ok_def after_hook_def)

lemmas eval_text =
  MaxScanTokenSize_def dropCR_def TrimSpace_def TrimLeft_id TrimRight_id
  space_prefix_def space_suffix_def space_runes_def suffix_to_prefix
  ip_here_def digits_dot_def digits_1_3_def digit_def dot_def is_digit_def

lemma demo_read: "readAddressFile demo_scanner demo_world = Inr [''10.0.0.5'', ''192.168.1.7'']"
  by (simp add: readAddressFile_def demo_world_def eval_text)

lemma spaced_read: "readAddressFile demo_scanner spaced_world = Inr [''10.0.0.5'']"
  by (simp add: readAddressFile_def spaced_world_def demo_world_def eval_text Let_def
      TrimLeft_unfold [of "'' 10.0.0.5''"])

lemma doubled_read: "readAddressFile demo_scanner doubled_world = Inr [''10.0.0.5'', ''10.0.0.5'']"
  by (simp add: readAddressFile_def doubled_world_def demo_world_def eval_text Let_def)

text \<open>
  Claim C8. Removing is idempotent. When the watchlist can be read and the address is not
  in it, \<^verbatim>\<open>removeAddress\<close> reports \<open>''not present in''\<close> without an error and
  writes nothing: the watchlist file and the timeout directory are as before, and the
  list read back is the same. The only error it can return here is that of a configured
  delete hook that fails, which runs before the list is looked at.
\<close>

theorem removeAddress_absent_noop:
  assumes "readAddressFile s w = Inr addrs" and "addr \<notin> set addrs"
  shows "removeAddress s addr w =
           (if hook_ok w (DeleteCommand s) (DeleteArgs s) addr then Inr ''not present in''
            else Inl (ExecFailed (DeleteCommand s) (DeleteArgs s @ [addr])),
            after_hook w (DeleteCommand s) (DeleteArgs s) addr)
       \<and> address_file (snd (removeAddress s addr w)) = address_file w
       \<and> timeout_dir (snd (removeAddress s addr w)) = timeout_dir w
       \<and> readAddressFile s (snd (removeAddress s addr w)) = Inr addrs"
proof -
  have eq: "removeAddress s addr w =
           (if hook_ok w (DeleteCommand s) (DeleteArgs s) addr then Inr ''not present in''
            else Inl (ExecFailed (DeleteCommand s) (DeleteArgs s @ [addr])),
            after_hook w (DeleteCommand s) (DeleteArgs s) addr)"
    using assms unfolding removeAddress_def hook_step by simp
  show ?thesis unfolding eq using assms(1) by simp
qed

theorem removeAddress_absent_noop_witness:
  "readAddressFile demo_scanner demo_world = Inr [''10.0.0.5'', ''192.168.1.7'']
   \<and> ''172.16.0.9'' \<notin> set [''10.0.0.5'', ''192.168.1.7'']
   \<and> fst (removeAddress demo_scanner ''172.16.0.9'' demo_world) = Inr ''not present in''
   \<and> address_file (snd (removeAddress demo_scanner ''172.16.0.9'' demo_world))
       = Some (''10.0.0.5'' @ [CHR 0x0A] @ ''192.168.1.7'' @ [CHR 0x0A])"
proof -
  have h1: "readAddressFile demo_scanner demo_world = Inr [''10.0.0.5'', ''192.168.1.7'']"
    by (rule demo_read)
  have h2: "''172.16.0.9'' \<notin> set [''10.0.0.5'', ''192.168.1.7'']"
    by simp
  have ok: "hook_ok demo_world (DeleteCommand demo_scanner) (DeleteArgs demo_scanner) ''172.16.0.9''"
    by (simp add: hook_ok_def demo_world_def)
  from removeAddress_absent_noop [OF h1 h2] ok
  have "fst (removeAddress demo_scanner ''172.16.0.9'' demo_world) = Inr ''not present in''"
    and "address_file (snd (removeAddress demo_scanner ''172.16.0.9'' demo_world))
          = address_file demo_world"
    by simp_all
  then show ?thesis using h1 h2 by (simp add: demo_world_def)
qed


lemma process_address_unfold:
  "process_address s addr w =
     (case writeTimeoutFile s addr w of
        (Some err, w1) \<Rightarrow> (Some (Errorf ''scanner: writeTimeoutFile'' err), w1)
      | (None, w1) \<Rightarrow>
          (case addAddress s addr w1 of
             (Inl err, w2) \<Rightarrow> (Some (Errorf ''scanner: addAddress'' err), w2)
           | (Inr action, w2) \<Rightarrow> (None, w2)))"
  by (rule process_address_def)

text \<open>
  Claim C5. Partial failure of a match. When the timeout record of the matched address
  was written and the add hook then fails, the worker returns the hook's error (wrapped
  as \<open>''scanner: addAddress''\<close>) and stops processing the line; the timeout record is
  not rolled back and holds the new expiration \<open>now + AddressTimeout\<close>; the watchlist
  file is untouched, since the hook runs before the list is read or written.
\<close>

theorem add_hook_failure_keeps_record:
  assumes "writeTimeoutFile s addr w = (None, w1)"
    and "\<not> hook_ok w (AddCommand s) (AddArgs s) addr"
  shows "\<exists>w2 d.
           process_address s addr w =
             (Some (Errorf ''scanner: addAddress''
                (ExecFailed (AddCommand s) (AddArgs s @ [addr]))), w2)
         \<and> address_file w2 = address_file w
         \<and> timeout_dir w2 = timeout_dir w1
         \<and> timeout_dir w2 = Some d
         \<and> map_of d addr = Some (Regular (Stamp (now w + AddressTimeout s)))
         \<and> (\<forall>pattern patterns line.
               1 < length (pattern line) \<and> pattern line ! 1 = addr \<longrightarrow>
               match_patterns s (pattern # patterns) line w =
                 (Some (Errorf ''scanner: addAddress''
                    (ExecFailed (AddCommand s) (AddArgs s @ [addr]))), w2))"
proof -
  from writeTimeoutFile_None [OF assms(1)] obtain d0 where d0: "timeout_dir w = Some d0"
    and w1: "w1 = w\<lparr>timeout_dir :=
                 Some (AList.update addr (Regular (Stamp (now w + AddressTimeout s))) d0)\<rparr>"
    by blast
  let ?d = "AList.update addr (Regular (Stamp (now w + AddressTimeout s))) d0"
  let ?w2 = "w1\<lparr>exec_log := exec_log w1 @ [(AddCommand s, AddArgs s @ [addr])]\<rparr>"
  have "\<not> hook_ok w1 (AddCommand s) (AddArgs s) addr"
    using assms(2) w1 by (simp add: hook_ok_def)
  then have add: "addAddress s addr w1 =
      (Inl (ExecFailed (AddCommand s) (AddArgs s @ [addr])), ?w2)"
    by (rule addAddress_hook_failed)
  have pa: "process_address s addr w =
      (Some (Errorf ''scanner: addAddress'' (ExecFailed (AddCommand s) (AddArgs s @ [addr]))), ?w2)"
    by (simp add: process_address_unfold assms(1) add)
  have "address_file ?w2 = address_file w" "timeout_dir ?w2 = timeout_dir w1"
    "timeout_dir ?w2 = Some ?d"
    using w1 by simp_all
  moreover have "map_of ?d addr = Some (Regular (Stamp (now w + AddressTimeout s)))"
    by (simp add: update_conv')
  moreover have "\<forall>pattern patterns line.
               1 < length (pattern line) \<and> pattern line ! 1 = addr \<longrightarrow>
               match_patterns s (pattern # patterns) line w =
                 (Some (Errorf ''scanner: addAddress''
                    (ExecFailed (AddCommand s) (AddArgs s @ [addr]))), ?w2)"
    using pa by (simp add: Let_def)
  ultimately show ?thesis using pa by blast
qed


lemmas eval_store =
  writeTimeoutFile_def write_timeout_entry_def MarshalText_def entry_name_def Let_def

theorem add_hook_failure_keeps_record_witness:
  "writeTimeoutFile demo_scanner ''172.16.0.9'' hook_fails_world =
     (None, hook_fails_world\<lparr>timeout_dir :=
        Some [(''10.0.0.5'', Regular (Stamp 1700000000000000000)),
              (''192.168.1.7'', Regular (Stamp 1700000000000000001)),
              (''lost+found'', Directory),
              (''172.16.0.9'', Regular (Stamp 1700000005000000000))]\<rparr>)
   \<and> \<not> hook_ok hook_fails_world (AddCommand demo_scanner) (AddArgs demo_scanner) ''172.16.0.9''
   \<and> (\<exists>w2 d. process_address demo_scanner ''172.16.0.9'' hook_fails_world =
          (Some (Errorf ''scanner: addAddress''
             (ExecFailed ''pfctl'' [''-t'', ''watch'', ''-T'', ''add'', ''172.16.0.9''])), w2)
        \<and> address_file w2 = Some (''10.0.0.5'' @ [CHR 0x0A] @ ''192.168.1.7'' @ [CHR 0x0A])
        \<and> timeout_dir w2 = Some d
        \<and> map_of d ''172.16.0.9'' = Some (Regular (Stamp 1700000005000000000)))"
proof -
  have h1: "writeTimeoutFile demo_scanner ''172.16.0.9'' hook_fails_world =
     (None, hook_fails_world\<lparr>timeout_dir :=
        Some [(''10.0.0.5'', Regular (Stamp 1700000000000000000)),
              (''192.168.1.7'', Regular (Stamp 1700000000000000001)),
              (''lost+found'', Directory),
              (''172.16.0.9'', Regular (Stamp 1700000005000000000))]\<rparr>)"
    by (simp add: eval_store hook_fails_world_def demo_world_def demo_scanner_def)
  have h2: "\<not> hook_ok hook_fails_world (AddCommand demo_scanner) (AddArgs demo_scanner)
              ''172.16.0.9''"
    by (simp add: hook_ok_def hook_fails_world_def demo_scanner_def)
  from add_hook_failure_keeps_record [OF h1 h2]
  obtain w2 d where r: "process_address demo_scanner ''172.16.0.9'' hook_fails_world =
             (Some (Errorf ''scanner: addAddress''
                (ExecFailed (AddCommand demo_scanner) (AddArgs demo_scanner @ [''172.16.0.9'']))), w2)"
    "address_file w2 = address_file hook_fails_world"
    "timeout_dir w2 = Some d"
    "map_of d ''172.16.0.9'' =
       Some (Regular (Stamp (now hook_fails_world + AddressTimeout demo_scanner)))"
    by blast
  have "process_address demo_scanner ''172.16.0.9'' hook_fails_world =
          (Some (Errorf ''scanner: addAddress''
             (ExecFailed ''pfctl'' [''-t'', ''watch'', ''-T'', ''add'', ''172.16.0.9''])), w2)"
    using r(1) by (simp add: demo_scanner_def)
  moreover have "address_file w2 = Some (''10.0.0.5'' @ [CHR 0x0A] @ ''192.168.1.7'' @ [CHR 0x0A])"
    using r(2) by (simp add: hook_fails_world_def demo_world_def)
  moreover have "map_of d ''172.16.0.9'' = Some (Regular (Stamp 1700000005000000000))"
    using r(4) by (simp add: hook_fails_world_def demo_world_def demo_scanner_def)
  ultimately show ?thesis using h1 h2 r(3) by blast
qed

text \<open>
  Claim C4, as the code has it. The worker hands the matched text to \<^verbatim>\<open>addAddress\<close>
  as it was captured, and \<^verbatim>\<open>addAddress\<close> looks it up in the list that
  \<^verbatim>\<open>readAddressFile\<close> returns, whose entries are the trimmed lines of the file. So let
  the matched text be an entry of that list; it is then an address line, free of white
  space around it. Processing another match of it writes a timeout record with the fresh
  expiration \<open>now + AddressTimeout\<close> over the old one, \<^verbatim>\<open>addAddress\<close> reports
  \<open>''already present in''\<close>, and the watchlist file is not written: its content, and
  so the list read from it, is unchanged. The other assumptions say that the record can
  be written (the address is a file name, the directory is there and writable, no
  directory or special file has that name, the expiration can be marshalled) and that
  the add hook, if configured, succeeds.
\<close>

theorem rematch_refreshes_record_only:
  assumes "readAddressFile s w = Inr addrs" and "addr \<in> set addrs"
    and "timeout_dir w = Some d" and "\<not> read_only w" and "entry_name addr"
    and "map_of d addr \<noteq> Some Directory" and "map_of d addr \<noteq> Some Irregular"
    and "MarshalText (now w + AddressTimeout s) = Inr (Stamp (now w + AddressTimeout s))"
    and "hook_ok w (AddCommand s) (AddArgs s) addr"
  shows "\<exists>w1 w2.
           writeTimeoutFile s addr w = (None, w1)
         \<and> addAddress s addr w1 = (Inr ''already present in'', w2)
         \<and> process_address s addr w = (None, w2)
         \<and> address_file w2 = address_file w
         \<and> readAddressFile s w2 = Inr addrs
         \<and> timeout_dir w2 =
             Some (AList.update addr (Regular (Stamp (now w + AddressTimeout s))) d)
         \<and> map_of (AList.update addr (Regular (Stamp (now w + AddressTimeout s))) d) addr =
             Some (Regular (Stamp (now w + AddressTimeout s)))
         \<and> address_line addr"
proof -
  let ?d = "AList.update addr (Regular (Stamp (now w + AddressTimeout s))) d"
  have al: "address_line addr" by (rule readAddressFile_address_lines [OF assms(1,2)])
  let ?w1 = "w\<lparr>timeout_dir := Some ?d\<rparr>"
  let ?w2 = "after_hook ?w1 (AddCommand s) (AddArgs s) addr"
  have wr: "writeTimeoutFile s addr w = (None, ?w1)"
    by (rule writeTimeoutFile_ok [OF assms(3-8)])
  have rd: "readAddressFile s ?w1 = Inr addrs"
    using assms(1) by (simp add: readAddressFile_def)
  have ok: "hook_ok ?w1 (AddCommand s) (AddArgs s) addr"
    using assms(9) by (simp add: hook_ok_def)
  have add: "addAddress s addr ?w1 = (Inr ''already present in'', ?w2)"
    using addAddress_present_eq [OF rd assms(2)] ok by simp
  have pa: "process_address s addr w = (None, ?w2)"
    by (simp add: process_address_unfold wr add)
  have "address_file ?w2 = address_file w" "timeout_dir ?w2 = Some ?d"
    by simp_all
  moreover have "readAddressFile s ?w2 = Inr addrs"
    using rd by simp
  moreover have "map_of ?d addr = Some (Regular (Stamp (now w + AddressTimeout s)))"
    by (simp add: update_conv')
  ultimately show ?thesis using wr add pa al by blast
qed

theorem rematch_refreshes_record_only_witness:
  "readAddressFile demo_scanner demo_world = Inr [''10.0.0.5'', ''192.168.1.7'']
   \<and> ''10.0.0.5'' \<in> set [''10.0.0.5'', ''192.168.1.7'']
   \<and> \<not> read_only demo_world \<and> entry_name ''10.0.0.5''
   \<and> hook_ok demo_world (AddCommand demo_scanner) (AddArgs demo_scanner) ''10.0.0.5''
   \<and> (\<exists>w2. process_address demo_scanner ''10.0.0.5'' demo_world = (None, w2)
         \<and> address_file w2 = Some (''10.0.0.5'' @ [CHR 0x0A] @ ''192.168.1.7'' @ [CHR 0x0A])
         \<and> timeout_dir w2 =
              Some [(''10.0.0.5'', Regular (Stamp 1700000005000000000)),
                    (''192.168.1.7'', Regular (Stamp 1700000000000000001)),
                    (''lost+found'', Directory)])"
proof -
  let ?d = "[(''10.0.0.5'', Regular (Stamp 1700000000000000000)),
             (''192.168.1.7'', Regular (Stamp 1700000000000000001)),
             (''lost+found'', Directory)]"
  have h1: "readAddressFile demo_scanner demo_world = Inr [''10.0.0.5'', ''192.168.1.7'']"
    by (rule demo_read)
  have h2: "''10.0.0.5'' \<in> set [''10.0.0.5'', ''192.168.1.7'']" by simp
  have h3: "timeout_dir demo_world = Some ?d" by (simp add: demo_world_def)
  have h4: "\<not> read_only demo_world" by (simp add: demo_world_def)
  have h5: "entry_name ''10.0.0.5''" by (simp add: entry_name_def)
  have h6: "map_of ?d ''10.0.0.5'' \<noteq> Some Directory" by simp
  have h7: "map_of ?d ''10.0.0.5'' \<noteq> Some Irregular" by simp
  have h8: "MarshalText (now demo_world + AddressTimeout demo_scanner)
              = Inr (Stamp (now demo_world + AddressTimeout demo_scanner))"
    by (simp add: MarshalText_def demo_world_def demo_scanner_def)
  have h9: "hook_ok demo_world (AddCommand demo_scanner) (AddArgs demo_scanner) ''10.0.0.5''"
    by (simp add: hook_ok_def demo_world_def)
  from rematch_refreshes_record_only [OF h1 h2 h3 h4 h5 h6 h7 h8 h9]
  obtain w2 where r: "process_address demo_scanner ''10.0.0.5'' demo_world = (None, w2)"
    "address_file w2 = address_file demo_world"
    "timeout_dir w2 = Some (AList.update ''10.0.0.5''
        (Regular (Stamp (now demo_world + AddressTimeout demo_scanner))) ?d)"
    by blast
  have "address_file w2 = Some (''10.0.0.5'' @ [CHR 0x0A] @ ''192.168.1.7'' @ [CHR 0x0A])"
    using r(2) by (simp add: demo_world_def)
  moreover have "timeout_dir w2 =
              Some [(''10.0.0.5'', Regular (Stamp 1700000005000000000)),
                    (''192.168.1.7'', Regular (Stamp 1700000000000000001)),
                    (''lost+found'', Directory)]"
    using r(3) by (simp add: demo_world_def demo_scanner_def)
  ultimately show ?thesis using h1 h2 h4 h5 h9 r(1) by blast
qed

text \<open>
  Claim C4 as stated fails for a matched text with white space around the address. The
  watchlist holds the line \<open>10.0.0.5\<close> after a blank, which is read as the address
  \<open>10.0.0.5\<close>; a pattern captures the text with the blank. The captured text is
  compared with the trimmed list, is not found, and is appended: \<^verbatim>\<open>addAddress\<close>
  reports \<open>''added to''\<close>, the file is rewritten with one line more, and the list
  read back holds the address twice.
\<close>

theorem rematch_counterexample:
  "address_file spaced_world = Some ('' 10.0.0.5'' @ [CHR 0x0A])
   \<and> readAddressFile demo_scanner spaced_world = Inr [''10.0.0.5'']
   \<and> fst (process_address demo_scanner '' 10.0.0.5'' spaced_world) = None
   \<and> fst (addAddress demo_scanner '' 10.0.0.5'' spaced_world) = Inr ''added to''
   \<and> address_file (snd (process_address demo_scanner '' 10.0.0.5'' spaced_world))
        = Some (''10.0.0.5'' @ [CHR 0x0A] @ '' 10.0.0.5'' @ [CHR 0x0A])
   \<and> readAddressFile demo_scanner (snd (process_address demo_scanner '' 10.0.0.5'' spaced_world))
        = Inr [''10.0.0.5'', ''10.0.0.5'']"
proof -
  have p: "process_address demo_scanner '' 10.0.0.5'' spaced_world =
     (None, spaced_world\<lparr>
        address_file := Some (''10.0.0.5'' @ [CHR 0x0A] @ '' 10.0.0.5'' @ [CHR 0x0A]),
        timeout_dir := Some [('' 10.0.0.5'', Regular (Stamp 1700000005000000000))],
        exec_log := [(''pfctl'', [''-t'', ''watch'', ''-T'', ''add'', '' 10.0.0.5''])]\<rparr>)"
    by (simp add: stdout_line_def process_address_def addAddress_def exec_def
        readAddressFile_def write_address_file_def eval_store eval_text demo_scanner_def demo_world_def
        spaced_world_def TrimLeft_unfold [of "'' 10.0.0.5''"])
  have "fst (addAddress demo_scanner '' 10.0.0.5'' spaced_world) = Inr ''added to''"
    by (simp add: stdout_line_def process_address_def addAddress_def exec_def
        readAddressFile_def write_address_file_def eval_text demo_scanner_def demo_world_def
        spaced_world_def Let_def TrimLeft_unfold [of "'' 10.0.0.5''"])
  moreover have "readAddressFile demo_scanner
      (snd (process_address demo_scanner '' 10.0.0.5'' spaced_world))
        = Inr [''10.0.0.5'', ''10.0.0.5'']"
    unfolding p
    by (simp add: readAddressFile_def eval_text Let_def TrimLeft_unfold [of "'' 10.0.0.5''"])
  moreover have "address_file spaced_world = Some ('' 10.0.0.5'' @ [CHR 0x0A])"
    by (simp add: spaced_world_def)
  ultimately show ?thesis using spaced_read unfolding p by simp
qed

section \<open>The address shape and construction\<close>

lemma octet_cases:
  assumes "octet d"
  obtains a where "d = [a]" "is_digit a"
  | a b where "d = [a, b]" "is_digit a" "is_digit b"
  | a b c where "d = [a, b, c]" "is_digit a" "is_digit b" "is_digit c"
proof -
  from assms have len: "1 \<le> length d" "length d \<le> 3" and dig: "\<forall>c \<in> set d. is_digit c"
    by (simp_all add: octet_def)
  show thesis
  proof (cases d)
    case Nil
    with len show ?thesis by simp
  next
    case (Cons a d1)
    note d = this
    show ?thesis
    proof (cases d1)
      case Nil
      with d dig that(1) show ?thesis by simp
    next
      case (Cons b d2)
      note d1 = this
      show ?thesis
      proof (cases d2)
        case Nil
        with d d1 dig that(2) show ?thesis by simp
      next
        case (Cons c d3)
        with d d1 len have "d3 = []" by simp
        with d d1 Cons dig that(3) show ?thesis by simp
      qed
    qed
  qed
qed

lemma digits_1_3_mem: "octet d \<Longrightarrow> r \<in> set (digits_1_3 (d @ r))"
  by (erule octet_cases) (simp_all add: digits_1_3_def digit_def Let_def)

lemma digits_dot_mem: "octet d \<Longrightarrow> r \<in> set (digits_dot (d @ CHR ''.'' # r))"
proof -
  assume "octet d"
  then have "CHR ''.'' # r \<in> set (digits_1_3 (d @ CHR ''.'' # r))" by (rule digits_1_3_mem)
  moreover have "r \<in> set (dot (CHR ''.'' # r))" by (simp add: dot_def)
  ultimately show ?thesis unfolding digits_dot_def by auto
qed

lemma ip_here_octets:
  assumes "octet d1" and "octet d2" and "octet d3" and "octet d4"
  shows "ip_here (d1 @ CHR ''.'' # d2 @ CHR ''.'' # d3 @ CHR ''.'' # d4 @ post)"
proof -
  let ?r1 = "d2 @ CHR ''.'' # d3 @ CHR ''.'' # d4 @ post"
  let ?r2 = "d3 @ CHR ''.'' # d4 @ post"
  let ?r3 = "d4 @ post"
  have 1: "?r1 \<in> set (digits_dot (d1 @ CHR ''.'' # ?r1))" using assms(1) by (rule digits_dot_mem)
  have 2: "?r2 \<in> set (digits_dot ?r1)" using assms(2) by (rule digits_dot_mem)
  have 3: "?r3 \<in> set (digits_dot ?r2)" using assms(3) by (rule digits_dot_mem)
  have 4: "post \<in> set (digits_1_3 ?r3)" using assms(4) by (rule digits_1_3_mem)
  from 1 2 have "?r2 \<in> set (concat (map digits_dot (digits_dot (d1 @ CHR ''.'' # ?r1))))"
    by auto
  with 3 have "?r3 \<in> set (concat (map digits_dot
      (concat (map digits_dot (digits_dot (d1 @ CHR ''.'' # ?r1))))))"
    by auto
  with 4 have "post \<in> set (concat (map digits_1_3 (concat (map digits_dot
      (concat (map digits_dot (digits_dot (d1 @ CHR ''.'' # ?r1))))))))"
    by auto
  then have "concat (map digits_1_3 (concat (map digits_dot
      (concat (map digits_dot (digits_dot (d1 @ CHR ''.'' # ?r1))))))) \<noteq> []"
    by (metis empty_iff empty_set)
  then show ?thesis unfolding ip_here_def .
qed

lemma MatchString_here: "ip_here x \<Longrightarrow> MatchString x"
  by (cases x) simp_all

lemma MatchString_append: "MatchString x \<Longrightarrow> MatchString (pre @ x)"
  by (induction pre) simp_all

lemma scan_addresses_accept:
  assumes "length l < MaxScanTokenSize" and "TrimSpace (dropCR l) \<noteq> []"
    and "MatchString (TrimSpace (dropCR l))"
  shows "scan_addresses s (l # ls) addrs = scan_addresses s ls (addrs @ [TrimSpace (dropCR l)])"
  using assms by (simp add: Let_def)

lemma scan_addresses_reject:
  assumes "\<forall>x \<in> set before. length x < MaxScanTokenSize
              \<and> (TrimSpace (dropCR x) = [] \<or> MatchString (TrimSpace (dropCR x)))"
    and "length l < MaxScanTokenSize" and "TrimSpace (dropCR l) \<noteq> []"
    and "\<not> MatchString (TrimSpace (dropCR l))"
  shows "scan_addresses s (before @ l # rest) addrs
           = Inl (UnexpectedAddress (TrimSpace (dropCR l)) (AddressFile s))"
  using assms by (induction before arbitrary: addrs) (auto simp: Let_def)

lemma scan_addresses_malformed:
  assumes "l \<in> set ls" and "TrimSpace (dropCR l) \<noteq> []" and "\<not> MatchString (TrimSpace (dropCR l))"
  shows "\<exists>e. scan_addresses s ls addrs = Inl e"
proof (cases "scan_addresses s ls addrs")
  case (Inl e)
  then show ?thesis by blast
next
  case (Inr r)
  from scan_addresses_result [OF Inr] assms show ?thesis by blast
qed


lemma NewScanner_configured:
  assumes "ParseDuration (timeout_seconds cfg @ ''s'') = Some timeout"
    and "ParseDuration (interval_seconds cfg @ ''s'') = Some interval"
    and "compile_patterns Compile patterns [] = Inr res"
  shows "NewScanner ParseDuration Compile cfg logFile addressFile timeoutDir patterns w =
     (case (if \<not> IsDir w then Mkdir w else (None, w)) of
        (Some err, w1) \<Rightarrow> (Inl err, w1)
      | (None, w1) \<Rightarrow>
     (case (if \<not> IsFile w1 then write_address_file [] w1 else (None, w1)) of
        (Some err, w2) \<Rightarrow> (Inl err, w2)
      | (None, w2) \<Rightarrow>
     (case readAddressFile (new_scanner cfg logFile addressFile timeoutDir timeout interval res) w2 of
        Inl err \<Rightarrow> (Inl err, w2)
      | Inr addrs \<Rightarrow>
     (case restore_timeouts (new_scanner cfg logFile addressFile timeoutDir timeout interval res)
             addrs w2 of
        (Some err, w3) \<Rightarrow> (Inl err, w3)
      | (None, w3) \<Rightarrow>
          (Inr (new_scanner cfg logFile addressFile timeoutDir timeout interval res), w3)))))"
  unfolding NewScanner_def Let_def assms
  by (simp only: option.case sum.case)

lemma NewScanner_existing_file:
  assumes "ParseDuration (timeout_seconds cfg @ ''s'') = Some timeout"
    and "ParseDuration (interval_seconds cfg @ ''s'') = Some interval"
    and "compile_patterns Compile patterns [] = Inr res"
    and "address_file w = Some body"
    and "readAddressFile (new_scanner cfg logFile addressFile timeoutDir timeout interval res) w
           = Inl e"
  shows "NewScanner ParseDuration Compile cfg logFile addressFile timeoutDir patterns w =
     (if IsDir w then (Inl e, w)
      else if read_only w then (Inl (MkdirFailed []), w)
      else (Inl e, w\<lparr>timeout_dir := Some []\<rparr>))"
proof -
  let ?s = "new_scanner cfg logFile addressFile timeoutDir timeout interval res"
  have "readAddressFile ?s (w\<lparr>timeout_dir := Some []\<rparr>) = Inl e"
    using assms(5) by (simp add: readAddressFile_def)
  then show ?thesis
    unfolding NewScanner_configured [OF assms(1-3)]
    using assms(4,5) by (simp add: IsFile_def IsDir_def Mkdir_def)
qed

lemma NewScanner_fails_on_read:
  assumes "address_file w = Some body"
    and "\<And>s. \<exists>e. readAddressFile s w = Inl e"
  shows "\<exists>e w'. NewScanner ParseDuration Compile cfg logFile addressFile timeoutDir patterns w
                  = (Inl e, w') \<and> address_file w' = Some body"
proof (cases "ParseDuration (timeout_seconds cfg @ ''s'')")
  case None
  then show ?thesis using assms(1) by (simp add: NewScanner_def)
next
  case (Some timeout)
  note t = this
  show ?thesis
  proof (cases "ParseDuration (interval_seconds cfg @ ''s'')")
    case None
    then show ?thesis using t assms(1) by (simp add: NewScanner_def)
  next
    case (Some interval)
    note i = this
    show ?thesis
    proof (cases "compile_patterns Compile patterns []")
      case (Inl err)
      then show ?thesis using t i assms(1) by (simp add: NewScanner_def)
    next
      case (Inr res)
      from assms(2) obtain e where
        "readAddressFile (new_scanner cfg logFile addressFile timeoutDir timeout interval res) w
           = Inl e" by blast
      from NewScanner_existing_file [OF t i Inr assms(1) this] assms(1)
      show ?thesis by (auto split: if_splits)
    qed
  qed
qed


lemma NewScanner_single_address:
  assumes "ParseDuration (timeout_seconds cfg @ ''s'') = Some timeout"
    and "ParseDuration (interval_seconds cfg @ ''s'') = Some interval"
    and "compile_patterns Compile patterns [] = Inr res"
    and "address_file w = Some body" and "timeout_dir w = Some d" and "\<not> read_only w"
    and "readAddressFile (new_scanner cfg logFile addressFile timeoutDir timeout interval res) w
           = Inr [a]"
    and "entry_name a" and "map_of d a = None"
    and "MarshalText (now w + timeout) = Inr (Stamp (now w + timeout))"
  shows "NewScanner ParseDuration Compile cfg logFile addressFile timeoutDir patterns w =
           (Inr (new_scanner cfg logFile addressFile timeoutDir timeout interval res),
            w\<lparr>timeout_dir := Some (AList.update a (Regular (Stamp (now w + timeout))) d)\<rparr>)"
proof -
  let ?s = "new_scanner cfg logFile addressFile timeoutDir timeout interval res"
  have t: "AddressTimeout ?s = timeout" by (simp add: new_scanner_def)
  have "map_of d a \<noteq> Some Directory" "map_of d a \<noteq> Some Irregular" using assms(9) by simp_all
  with assms(5,6,8,10) have wr: "writeTimeoutFile ?s a w =
      (None, w\<lparr>timeout_dir := Some (AList.update a (Regular (Stamp (now w + timeout))) d)\<rparr>)"
    using writeTimeoutFile_ok [of w d a ?s] t by simp
  have nf: "\<not> IsFile_timeout a w" using assms(5,9) by (simp add: IsFile_timeout_def)
  have "restore_timeouts ?s [a] w =
      (None, w\<lparr>timeout_dir := Some (AList.update a (Regular (Stamp (now w + timeout))) d)\<rparr>)"
    using nf wr by simp
  then show ?thesis
    unfolding NewScanner_configured [OF assms(1-3)]
    using assms(4,5,7) by (simp add: IsDir_def IsFile_def)
qed

text \<open>
  Claim C9. The address shape is a substring match without range validation. Let a line
  of the watchlist (no newline in it, short enough for the line scanner) be such that,
  once trimmed, it contains somewhere four runs of one to three digits separated by
  dots. Then \<^verbatim>\<open>IP_PATTERN.MatchString\<close> holds of the trimmed line, the scan loop of
  \<^verbatim>\<open>readAddressFile\<close> accepts it and appends the whole trimmed line, not the matching
  part, to the addresses; a file made of that line reads back as that one address.
  At startup, with a valid configuration and a writable timeout directory in which the
  trimmed line can name a new file, \<^verbatim>\<open>NewScanner\<close> succeeds on such a file and
  writes the timeout record under the whole trimmed line as its name.
\<close>

theorem address_shape_is_substring_match:
  assumes "octet d1" and "octet d2" and "octet d3" and "octet d4"
    and "TrimSpace (dropCR l) = pre @ d1 @ ''.'' @ d2 @ ''.'' @ d3 @ ''.'' @ d4 @ post"
    and "length l < MaxScanTokenSize" and "CHR 0x0A \<notin> set l"
  shows "MatchString (TrimSpace (dropCR l))
       \<and> scan_addresses s (l # ls) addrs = scan_addresses s ls (addrs @ [TrimSpace (dropCR l)])
       \<and> readAddressFile s (w\<lparr>address_file := Some (l @ [CHR 0x0A])\<rparr>) = Inr [TrimSpace (dropCR l)]
       \<and> (ParseDuration (timeout_seconds cfg @ ''s'') = Some timeout
          \<and> ParseDuration (interval_seconds cfg @ ''s'') = Some interval
          \<and> compile_patterns Compile patterns [] = Inr res
          \<and> timeout_dir w = Some d \<and> \<not> read_only w
          \<and> entry_name (TrimSpace (dropCR l)) \<and> map_of d (TrimSpace (dropCR l)) = None
          \<and> MarshalText (now w + timeout) = Inr (Stamp (now w + timeout))
          \<longrightarrow>
            NewScanner ParseDuration Compile cfg logFile addressFile timeoutDir patterns
              (w\<lparr>address_file := Some (l @ [CHR 0x0A])\<rparr>)
            = (Inr (new_scanner cfg logFile addressFile timeoutDir timeout interval res),
               w\<lparr>address_file := Some (l @ [CHR 0x0A]),
                 timeout_dir := Some (AList.update (TrimSpace (dropCR l))
                                        (Regular (Stamp (now w + timeout))) d)\<rparr>))"
proof -
  have "ip_here (d1 @ CHR ''.'' # d2 @ CHR ''.'' # d3 @ CHR ''.'' # d4 @ post)"
    using assms(1-4) by (rule ip_here_octets)
  then have m: "MatchString (TrimSpace (dropCR l))"
    using assms(5) MatchString_append [OF MatchString_here] by simp
  have ne: "TrimSpace (dropCR l) \<noteq> []"
    using assms(1,5) by (auto simp: octet_def)
  have step: "\<And>ls addrs. scan_addresses s (l # ls) addrs
      = scan_addresses s ls (addrs @ [TrimSpace (dropCR l)])"
    using assms(6) ne m by (rule scan_addresses_accept)
  have "raw_lines [] (l @ CHR 0x0A # []) = ([] @ l) # raw_lines [] []"
    using assms(7) by (rule raw_lines_line)
  then have rd: "\<And>s. readAddressFile s (w\<lparr>address_file := Some (l @ [CHR 0x0A])\<rparr>)
      = Inr [TrimSpace (dropCR l)]"
    using assms(6) ne m by (simp add: readAddressFile_def Let_def)
  have "NewScanner ParseDuration Compile cfg logFile addressFile timeoutDir patterns
              (w\<lparr>address_file := Some (l @ [CHR 0x0A])\<rparr>)
            = (Inr (new_scanner cfg logFile addressFile timeoutDir timeout interval res),
               w\<lparr>address_file := Some (l @ [CHR 0x0A]),
                 timeout_dir := Some (AList.update (TrimSpace (dropCR l))
                                        (Regular (Stamp (now w + timeout))) d)\<rparr>)"
    if c: "ParseDuration (timeout_seconds cfg @ ''s'') = Some timeout
          \<and> ParseDuration (interval_seconds cfg @ ''s'') = Some interval
          \<and> compile_patterns Compile patterns [] = Inr res
          \<and> timeout_dir w = Some d \<and> \<not> read_only w
          \<and> entry_name (TrimSpace (dropCR l)) \<and> map_of d (TrimSpace (dropCR l)) = None
          \<and> MarshalText (now w + timeout) = Inr (Stamp (now w + timeout))"
  proof -
    let ?w = "w\<lparr>address_file := Some (l @ [CHR 0x0A])\<rparr>"
    from c have c1: "ParseDuration (timeout_seconds cfg @ ''s'') = Some timeout"
      and c2: "ParseDuration (interval_seconds cfg @ ''s'') = Some interval"
      and c3: "compile_patterns Compile patterns [] = Inr res"
      and c4: "address_file ?w = Some (l @ [CHR 0x0A])"
      and c5: "timeout_dir ?w = Some d" and c6: "\<not> read_only ?w"
      and c8: "entry_name (TrimSpace (dropCR l))" and c9: "map_of d (TrimSpace (dropCR l)) = None"
      and c10: "MarshalText (now ?w + timeout) = Inr (Stamp (now ?w + timeout))"
      by simp_all
    from NewScanner_single_address [OF c1 c2 c3 c4 c5 c6 rd c8 c9 c10]
    show ?thesis by simp
  qed
  with m step rd show ?thesis by blast
qed


theorem address_shape_is_substring_match_witness:
  "octet ''1'' \<and> octet ''2'' \<and> octet ''3'' \<and> octet ''4'' \<and> octet ''999''
   \<and> TrimSpace (dropCR ''prefix 1.2.3.4 suffix'')
        = ''prefix '' @ ''1'' @ ''.'' @ ''2'' @ ''.'' @ ''3'' @ ''.'' @ ''4'' @ '' suffix''
   \<and> TrimSpace (dropCR ''999.999.999.999'')
        = [] @ ''999'' @ ''.'' @ ''999'' @ ''.'' @ ''999'' @ ''.'' @ ''999'' @ []
   \<and> readAddressFile demo_scanner
        (demo_world\<lparr>address_file := Some (''prefix 1.2.3.4 suffix'' @ [CHR 0x0A])\<rparr>)
        = Inr [''prefix 1.2.3.4 suffix'']
   \<and> readAddressFile demo_scanner
        (demo_world\<lparr>address_file := Some (''999.999.999.999'' @ [CHR 0x0A])\<rparr>)
        = Inr [''999.999.999.999'']
   \<and> fst (NewScanner demo_ParseDuration demo_Compile demo_settings ''/var/log/authlog''
            ''/var/db/watchlist'' ''/var/db/timeouts'' [''from (.*) port'']
            (demo_world\<lparr>address_file := Some (''999.999.999.999'' @ [CHR 0x0A])\<rparr>))
        = Inr (new_scanner demo_settings ''/var/log/authlog'' ''/var/db/watchlist''
                 ''/var/db/timeouts'' 300000000000 60000000000 [\<lambda>line. []])"
proof -
  have o: "octet ''1''" "octet ''2''" "octet ''3''" "octet ''4''" "octet ''999''"
    by (simp_all add: octet_def is_digit_def)
  have t1: "TrimSpace (dropCR ''prefix 1.2.3.4 suffix'')
        = ''prefix '' @ ''1'' @ ''.'' @ ''2'' @ ''.'' @ ''3'' @ ''.'' @ ''4'' @ '' suffix''"
    by (simp add: eval_text)
  have t2: "TrimSpace (dropCR ''999.999.999.999'')
        = [] @ ''999'' @ ''.'' @ ''999'' @ ''.'' @ ''999'' @ ''.'' @ ''999'' @ []"
    by (simp add: eval_text)
  have l1: "length ''prefix 1.2.3.4 suffix'' < MaxScanTokenSize"
    and l2: "length ''999.999.999.999'' < MaxScanTokenSize"
    by (simp_all add: MaxScanTokenSize_def)
  have n1: "CHR 0x0A \<notin> set ''prefix 1.2.3.4 suffix''"
    and n2: "CHR 0x0A \<notin> set ''999.999.999.999''"
    by simp_all
  from address_shape_is_substring_match [OF o(1) o(2) o(3) o(4) t1 l1 n1, of demo_scanner _ _ demo_world]
  have r1: "readAddressFile demo_scanner
        (demo_world\<lparr>address_file := Some (''prefix 1.2.3.4 suffix'' @ [CHR 0x0A])\<rparr>)
        = Inr [TrimSpace (dropCR ''prefix 1.2.3.4 suffix'')]"
    by blast
  from address_shape_is_substring_match [OF o(5) o(5) o(5) o(5) t2 l2 n2, of demo_scanner _ _ demo_world]
  have r2: "readAddressFile demo_scanner
        (demo_world\<lparr>address_file := Some (''999.999.999.999'' @ [CHR 0x0A])\<rparr>)
        = Inr [TrimSpace (dropCR ''999.999.999.999'')]"
    by blast
  have e1: "TrimSpace (dropCR ''prefix 1.2.3.4 suffix'') = ''prefix 1.2.3.4 suffix''"
    and e2: "TrimSpace (dropCR ''999.999.999.999'') = ''999.999.999.999''"
    by (simp_all add: eval_text)
  have c: "demo_ParseDuration (timeout_seconds demo_settings @ ''s'') = Some 300000000000
          \<and> demo_ParseDuration (interval_seconds demo_settings @ ''s'') = Some 60000000000
          \<and> compile_patterns demo_Compile [''from (.*) port''] [] = Inr [\<lambda>line. []]
          \<and> timeout_dir demo_world =
                Some [(''10.0.0.5'', Regular (Stamp 1700000000000000000)),
                      (''192.168.1.7'', Regular (Stamp 1700000000000000001)),
                      (''lost+found'', Directory)]
          \<and> \<not> read_only demo_world
          \<and> entry_name (TrimSpace (dropCR ''999.999.999.999''))
          \<and> map_of [(''10.0.0.5'', Regular (Stamp 1700000000000000000)),
                      (''192.168.1.7'', Regular (Stamp 1700000000000000001)),
                      (''lost+found'', Directory)] (TrimSpace (dropCR ''999.999.999.999'')) = None
          \<and> MarshalText (now demo_world + 300000000000)
                = Inr (Stamp (now demo_world + 300000000000))"
    unfolding e2
    by (simp add: demo_ParseDuration_def demo_settings_def demo_Compile_def demo_world_def
        entry_name_def MarshalText_def)
  from address_shape_is_substring_match [OF o(5) o(5) o(5) o(5) t2 l2 n2,
      where w = demo_world and ParseDuration = demo_ParseDuration and cfg = demo_settings
        and timeout = 300000000000 and interval = 60000000000 and Compile = demo_Compile
        and patterns = "[''from (.*) port'']" and res = "[\<lambda>line. []]"
        and d = "[(''10.0.0.5'', Regular (Stamp 1700000000000000000)),
                  (''192.168.1.7'', Regular (Stamp 1700000000000000001)),
                  (''lost+found'', Directory)]"
        and logFile = "''/var/log/authlog''" and addressFile = "''/var/db/watchlist''"
        and timeoutDir = "''/var/db/timeouts''"] c
  have "NewScanner demo_ParseDuration demo_Compile demo_settings ''/var/log/authlog''
            ''/var/db/watchlist'' ''/var/db/timeouts'' [''from (.*) port'']
            (demo_world\<lparr>address_file := Some (''999.999.999.999'' @ [CHR 0x0A])\<rparr>)
        = (Inr (new_scanner demo_settings ''/var/log/authlog'' ''/var/db/watchlist''
                 ''/var/db/timeouts'' 300000000000 60000000000 [\<lambda>line. []]),
           demo_world\<lparr>address_file := Some (''999.999.999.999'' @ [CHR 0x0A]),
             timeout_dir := Some (AList.update (TrimSpace (dropCR ''999.999.999.999''))
                (Regular (Stamp (now demo_world + 300000000000)))
                [(''10.0.0.5'', Regular (Stamp 1700000000000000000)),
                 (''192.168.1.7'', Regular (Stamp 1700000000000000001)),
                 (''lost+found'', Directory)])\<rparr>)"
    by blast
  then have ns: "fst (NewScanner demo_ParseDuration demo_Compile demo_settings ''/var/log/authlog''
            ''/var/db/watchlist'' ''/var/db/timeouts'' [''from (.*) port'']
            (demo_world\<lparr>address_file := Some (''999.999.999.999'' @ [CHR 0x0A])\<rparr>))
        = Inr (new_scanner demo_settings ''/var/log/authlog'' ''/var/db/watchlist''
                 ''/var/db/timeouts'' 300000000000 60000000000 [\<lambda>line. []])"
    by (simp only: fst_conv)
  from r1 r2 have "readAddressFile demo_scanner
        (demo_world\<lparr>address_file := Some (''prefix 1.2.3.4 suffix'' @ [CHR 0x0A])\<rparr>)
        = Inr [''prefix 1.2.3.4 suffix'']"
    and "readAddressFile demo_scanner
        (demo_world\<lparr>address_file := Some (''999.999.999.999'' @ [CHR 0x0A])\<rparr>)
        = Inr [''999.999.999.999'']"
    unfolding e1 e2 by simp_all
  with o t1 t2 ns show ?thesis by blast
qed

text \<open>
  Claim C7. Construction fails on watchlist corruption. Let the watchlist file exist and
  have a line that, once trimmed, is not empty and does not contain the address shape.
  Then \<^verbatim>\<open>NewScanner\<close> returns an error, whatever the configuration, and leaves the
  file as it is. When the configuration is valid (durations parse, patterns compile, the
  timeout directory exists or can be made), every earlier line is blank or an address,
  and no line so far is too long for the line scanner, the error is
  \<open>UnexpectedAddress\<close> of that trimmed line and the file name.
\<close>

theorem NewScanner_rejects_malformed_line:
  assumes "address_file w = Some body"
    and "raw_lines [] body = before @ l # rest"
    and "TrimSpace (dropCR l) \<noteq> []"
    and "\<not> MatchString (TrimSpace (dropCR l))"
  shows "(\<exists>e w'. NewScanner ParseDuration Compile cfg logFile addressFile timeoutDir patterns w
                    = (Inl e, w')
                \<and> address_file w' = Some body)
       \<and> (ParseDuration (timeout_seconds cfg @ ''s'') \<noteq> None
          \<and> ParseDuration (interval_seconds cfg @ ''s'') \<noteq> None
          \<and> (\<exists>res. compile_patterns Compile patterns [] = Inr res)
          \<and> (IsDir w \<or> \<not> read_only w)
          \<and> (\<forall>x \<in> set before. length x < MaxScanTokenSize
                \<and> (TrimSpace (dropCR x) = [] \<or> MatchString (TrimSpace (dropCR x))))
          \<and> length l < MaxScanTokenSize
          \<longrightarrow> fst (NewScanner ParseDuration Compile cfg logFile addressFile timeoutDir patterns w)
                = Inl (UnexpectedAddress (TrimSpace (dropCR l)) addressFile))"
proof
  have "l \<in> set (raw_lines [] body)" using assms(2) by simp
  then have "\<And>s. \<exists>e. readAddressFile s w = Inl e"
    using assms(1,3,4) scan_addresses_malformed by (simp add: readAddressFile_def)
  with assms(1)
  show "\<exists>e w'. NewScanner ParseDuration Compile cfg logFile addressFile timeoutDir patterns w
                    = (Inl e, w')
                \<and> address_file w' = Some body"
    by (rule NewScanner_fails_on_read)
next
  show "ParseDuration (timeout_seconds cfg @ ''s'') \<noteq> None
          \<and> ParseDuration (interval_seconds cfg @ ''s'') \<noteq> None
          \<and> (\<exists>res. compile_patterns Compile patterns [] = Inr res)
          \<and> (IsDir w \<or> \<not> read_only w)
          \<and> (\<forall>x \<in> set before. length x < MaxScanTokenSize
                \<and> (TrimSpace (dropCR x) = [] \<or> MatchString (TrimSpace (dropCR x))))
          \<and> length l < MaxScanTokenSize
          \<longrightarrow> fst (NewScanner ParseDuration Compile cfg logFile addressFile timeoutDir patterns w)
                = Inl (UnexpectedAddress (TrimSpace (dropCR l)) addressFile)"
  proof
    assume a: "ParseDuration (timeout_seconds cfg @ ''s'') \<noteq> None
          \<and> ParseDuration (interval_seconds cfg @ ''s'') \<noteq> None
          \<and> (\<exists>res. compile_patterns Compile patterns [] = Inr res)
          \<and> (IsDir w \<or> \<not> read_only w)
          \<and> (\<forall>x \<in> set before. length x < MaxScanTokenSize
                \<and> (TrimSpace (dropCR x) = [] \<or> MatchString (TrimSpace (dropCR x))))
          \<and> length l < MaxScanTokenSize"
    then obtain timeout interval res where c:
      "ParseDuration (timeout_seconds cfg @ ''s'') = Some timeout"
      "ParseDuration (interval_seconds cfg @ ''s'') = Some interval"
      "compile_patterns Compile patterns [] = Inr res"
      by auto
    let ?s = "new_scanner cfg logFile addressFile timeoutDir timeout interval res"
    from a have before: "\<forall>x \<in> set before. length x < MaxScanTokenSize
                \<and> (TrimSpace (dropCR x) = [] \<or> MatchString (TrimSpace (dropCR x)))"
      and short: "length l < MaxScanTokenSize" and dir: "IsDir w \<or> \<not> read_only w"
      by simp_all
    have "scan_addresses ?s (before @ l # rest) []
            = Inl (UnexpectedAddress (TrimSpace (dropCR l)) (AddressFile ?s))"
      using before short assms(3,4) by (rule scan_addresses_reject)
    then have "readAddressFile ?s w = Inl (UnexpectedAddress (TrimSpace (dropCR l)) addressFile)"
      using assms(1,2) by (simp add: readAddressFile_def new_scanner_def)
    from NewScanner_existing_file [OF c assms(1) this] dir
    show "fst (NewScanner ParseDuration Compile cfg logFile addressFile timeoutDir patterns w)
                = Inl (UnexpectedAddress (TrimSpace (dropCR l)) addressFile)"
      by auto
  qed
qed

theorem NewScanner_rejects_malformed_line_witness:
  "address_file corrupt_world = Some (''10.0.0.5'' @ [CHR 0x0A] @ ''not-an-ip'' @ [CHR 0x0A])
   \<and> raw_lines [] (''10.0.0.5'' @ [CHR 0x0A] @ ''not-an-ip'' @ [CHR 0x0A])
        = [''10.0.0.5''] @ ''not-an-ip'' # []
   \<and> TrimSpace (dropCR ''not-an-ip'') = ''not-an-ip''
   \<and> \<not> MatchString ''not-an-ip''
   \<and> fst (NewScanner demo_ParseDuration demo_Compile demo_settings ''/var/log/authlog''
            ''/var/db/watchlist'' ''/var/db/timeouts'' [''from (.*) port''] corrupt_world)
        = Inl (UnexpectedAddress ''not-an-ip'' ''/var/db/watchlist'')"
proof -
  have h1: "address_file corrupt_world
      = Some (''10.0.0.5'' @ [CHR 0x0A] @ ''not-an-ip'' @ [CHR 0x0A])"
    by (simp add: corrupt_world_def)
  have h2: "raw_lines [] (''10.0.0.5'' @ [CHR 0x0A] @ ''not-an-ip'' @ [CHR 0x0A])
        = [''10.0.0.5''] @ ''not-an-ip'' # []"
    by simp
  have t: "TrimSpace (dropCR ''not-an-ip'') = ''not-an-ip''"
    by (simp add: eval_text)
  have h3: "TrimSpace (dropCR ''not-an-ip'') \<noteq> []"
    by (simp add: t)
  have m: "\<not> MatchString ''not-an-ip''"
    by (simp add: eval_text)
  have h4: "\<not> MatchString (TrimSpace (dropCR ''not-an-ip''))"
    unfolding t by (rule m)
  have c: "demo_ParseDuration (timeout_seconds demo_settings @ ''s'') \<noteq> None
          \<and> demo_ParseDuration (interval_seconds demo_settings @ ''s'') \<noteq> None
          \<and> (\<exists>res. compile_patterns demo_Compile [''from (.*) port''] [] = Inr res)
          \<and> (IsDir corrupt_world \<or> \<not> read_only corrupt_world)
          \<and> (\<forall>x \<in> set [''10.0.0.5'']. length x < MaxScanTokenSize
                \<and> (TrimSpace (dropCR x) = [] \<or> MatchString (TrimSpace (dropCR x))))
          \<and> length ''not-an-ip'' < MaxScanTokenSize"
    by (simp add: demo_ParseDuration_def demo_settings_def demo_Compile_def IsDir_def
        corrupt_world_def demo_world_def eval_text)
  from NewScanner_rejects_malformed_line [OF h1 h2 h3 h4, of demo_ParseDuration demo_Compile
      demo_settings "''/var/log/authlog''" "''/var/db/watchlist''" "''/var/db/timeouts''"
      "[''from (.*) port'']"] c
  have "fst (NewScanner demo_ParseDuration demo_Compile demo_settings ''/var/log/authlog''
            ''/var/db/watchlist'' ''/var/db/timeouts'' [''from (.*) port''] corrupt_world)
        = Inl (UnexpectedAddress (TrimSpace (dropCR ''not-an-ip'')) ''/var/db/watchlist'')"
    by blast
  then have "fst (NewScanner demo_ParseDuration demo_Compile demo_settings ''/var/log/authlog''
            ''/var/db/watchlist'' ''/var/db/timeouts'' [''from (.*) port''] corrupt_world)
        = Inl (UnexpectedAddress ''not-an-ip'' ''/var/db/watchlist'')"
    unfolding t .
  with h1 h2 t m show ?thesis by blast
qed

section \<open>Every pattern is applied to a line\<close>

lemma match_patterns_process_all:
  "match_patterns s patterns line w = process_all s (matched_addresses patterns line) w"
proof (induction patterns arbitrary: w)
  case Nil
  then show ?case by (simp add: matched_addresses_def)
next
  case (Cons pattern patterns)
  show ?case
  proof (cases "1 < length (pattern line)")
    case True
    then have m: "matched_addresses (pattern # patterns) line
        = (pattern line ! 1) # matched_addresses patterns line"
      by (simp add: matched_addresses_def)
    show ?thesis
      unfolding m using True Cons.IH
      by (simp add: Let_def split: prod.splits option.splits)
  next
    case False
    then have "matched_addresses (pattern # patterns) line = matched_addresses patterns line"
      by (simp add: matched_addresses_def)
    with False Cons.IH show ?thesis by (simp add: Let_def)
  qed
qed

lemma addAddress_Inr:
  assumes "addAddress s addr w = (Inr action, w')"
  shows "\<exists>addrs. readAddressFile s w = Inr addrs
           \<and> hook_ok w (AddCommand s) (AddArgs s) addr
           \<and> exec_log w' = exec_log w @ hook_calls (AddCommand s) (AddArgs s) [addr]
           \<and> timeout_dir w' = timeout_dir w \<and> now w' = now w
           \<and> read_only w' = read_only w \<and> exec_ok w' = exec_ok w
           \<and> address_file w' =
               (if addr \<in> set addrs then address_file w
                else Some (Join (addrs @ [addr]) [CHR 0x0A] @ [CHR 0x0A]))"
proof -
  from assms have ok: "hook_ok w (AddCommand s) (AddArgs s) addr"
    unfolding addAddress_def hook_step by (auto split: if_splits)
  from assms ok obtain addrs where rd: "readAddressFile s w = Inr addrs"
    unfolding addAddress_def hook_step by (cases "readAddressFile s w") auto
  have log: "exec_log (after_hook w (AddCommand s) (AddArgs s) addr)
      = exec_log w @ hook_calls (AddCommand s) (AddArgs s) [addr]"
    by (simp add: after_hook_def hook_calls_def)
  show ?thesis
  proof (cases "addr \<in> set addrs")
    case True
    from addAddress_present_eq [OF rd True] ok assms
    have "w' = after_hook w (AddCommand s) (AddArgs s) addr" by simp
    with rd ok True log show ?thesis by simp
  next
    case False
    have "\<not> read_only w"
    proof
      assume "read_only w"
      with assms rd ok False show False
        unfolding addAddress_def hook_step by (simp add: write_address_file_def)
    qed
    from addAddress_absent_eq [OF rd False ok this] assms
    have "w' = (after_hook w (AddCommand s) (AddArgs s) addr)
        \<lparr>address_file := Some (Join (addrs @ [addr]) [CHR 0x0A] @ [CHR 0x0A])\<rparr>" by simp
    with rd ok False log show ?thesis by simp
  qed
qed

lemma process_address_None:
  assumes "process_address s addr w = (None, w')"
  shows "\<exists>d addrs. timeout_dir w = Some d \<and> readAddressFile s w = Inr addrs
           \<and> entry_name addr
           \<and> timeout_dir w' =
                Some (AList.update addr (Regular (Stamp (now w + AddressTimeout s))) d)
           \<and> exec_log w' = exec_log w @ hook_calls (AddCommand s) (AddArgs s) [addr]
           \<and> now w' = now w \<and> read_only w' = read_only w \<and> exec_ok w' = exec_ok w
           \<and> address_file w' =
               (if addr \<in> set addrs then address_file w
                else Some (Join (addrs @ [addr]) [CHR 0x0A] @ [CHR 0x0A]))"
proof -
  from assms obtain w1 action where wr: "writeTimeoutFile s addr w = (None, w1)"
    and add: "addAddress s addr w1 = (Inr action, w')"
    unfolding process_address_unfold
    by (auto split: prod.splits option.splits sum.splits)
  from writeTimeoutFile_None [OF wr] obtain d where d: "timeout_dir w = Some d"
    "entry_name addr"
    "w1 = w\<lparr>timeout_dir := Some (AList.update addr (Regular (Stamp (now w + AddressTimeout s))) d)\<rparr>"
    by blast
  from addAddress_Inr [OF add] obtain addrs where a: "readAddressFile s w1 = Inr addrs"
    "exec_log w' = exec_log w1 @ hook_calls (AddCommand s) (AddArgs s) [addr]"
    "timeout_dir w' = timeout_dir w1" "now w' = now w1"
    "read_only w' = read_only w1" "exec_ok w' = exec_ok w1"
    "address_file w' =
               (if addr \<in> set addrs then address_file w1
                else Some (Join (addrs @ [addr]) [CHR 0x0A] @ [CHR 0x0A]))"
    by blast
  have "readAddressFile s w = Inr addrs"
    using a(1) d(3) by (simp add: readAddressFile_def)
  with d a show ?thesis by simp
qed


lemma hook_calls_Cons:
  "hook_calls c args (a # as) = hook_calls c args [a] @ hook_calls c args as"
  by (simp add: hook_calls_def)

lemma fresh_record_now:
  "now w1 = now w \<Longrightarrow> fresh_record s w1 w' a = fresh_record s w w' a"
  by (cases "timeout_dir w'") (simp_all add: fresh_record_def)

lemma fresh_record_kept:
  assumes "process_all s as w1 = (None, w')" and "now w1 = now w" and "fresh_record s w w1 a"
  shows "fresh_record s w w' a"
  using assms
proof (induction as arbitrary: w1)
  case Nil
  then show ?case by simp
next
  case (Cons b as)
  from Cons.prems(1) obtain w2 where step: "process_address s b w1 = (None, w2)"
    and rest: "process_all s as w2 = (None, w')"
    by (auto split: prod.splits option.splits)
  from process_address_None [OF step] obtain d where d: "timeout_dir w1 = Some d"
    "timeout_dir w2 = Some (AList.update b (Regular (Stamp (now w1 + AddressTimeout s))) d)"
    "now w2 = now w1"
    by blast
  have "fresh_record s w w2 a"
    using Cons.prems(2,3) d by (simp add: fresh_record_def update_conv')
  moreover have "now w2 = now w" using d(3) Cons.prems(2) by simp
  ultimately show ?case using Cons.IH [OF rest] by simp
qed

lemma process_all_None:
  assumes "process_all s as w = (None, w')"
  shows "exec_log w' = exec_log w @ hook_calls (AddCommand s) (AddArgs s) as
       \<and> now w' = now w
       \<and> (\<forall>a \<in> set as. fresh_record s w w' a)"
  using assms
proof (induction as arbitrary: w)
  case Nil
  then show ?case by (simp add: hook_calls_def)
next
  case (Cons a as)
  from Cons.prems obtain w1 where step: "process_address s a w = (None, w1)"
    and rest: "process_all s as w1 = (None, w')"
    by (auto split: prod.splits option.splits)
  from process_address_None [OF step] obtain d where d: "timeout_dir w = Some d"
    "timeout_dir w1 = Some (AList.update a (Regular (Stamp (now w + AddressTimeout s))) d)"
    "exec_log w1 = exec_log w @ hook_calls (AddCommand s) (AddArgs s) [a]"
    "now w1 = now w"
    by blast
  from Cons.IH [OF rest] have ih: "exec_log w' = exec_log w1 @ hook_calls (AddCommand s) (AddArgs s) as"
    "now w' = now w1" "\<forall>b \<in> set as. fresh_record s w1 w' b"
    by simp_all
  have "fresh_record s w w1 a" using d(2) by (simp add: fresh_record_def update_conv')
  with rest d(4) have "fresh_record s w w' a" by (rule fresh_record_kept)
  moreover have "\<forall>b \<in> set as. fresh_record s w w' b"
    using ih(3) fresh_record_now [OF d(4)] by simp
  moreover have "exec_log w' = exec_log w @ hook_calls (AddCommand s) (AddArgs s) (a # as)"
    using ih(1) d(3) hook_calls_Cons [of "AddCommand s" "AddArgs s" a as] by simp
  ultimately show ?case using ih(2) d(4) by simp
qed

lemma process_all_watchlist:
  assumes "process_all s as w = (None, w')" and "readAddressFile s w = Inr addrs"
    and "\<forall>a \<in> set as. address_line a"
  shows "\<exists>addrs'. readAddressFile s w' = Inr addrs' \<and> set addrs' = set addrs \<union> set as
           \<and> (distinct addrs \<longrightarrow> distinct addrs')"
  using assms
proof (induction as arbitrary: w addrs)
  case Nil
  then show ?case by simp
next
  case (Cons a as)
  from Cons.prems(1) obtain w1 where step: "process_address s a w = (None, w1)"
    and rest: "process_all s as w1 = (None, w')"
    by (auto split: prod.splits option.splits)
  from process_address_None [OF step] Cons.prems(2)
  have fl: "address_file w1 =
               (if a \<in> set addrs then address_file w
                else Some (Join (addrs @ [a]) [CHR 0x0A] @ [CHR 0x0A]))"
    by auto
  let ?addrs1 = "if a \<in> set addrs then addrs else addrs @ [a]"
  have rd1: "readAddressFile s w1 = Inr ?addrs1"
  proof (cases "a \<in> set addrs")
    case True
    with fl have "address_file w1 = address_file w" by simp
    then have "readAddressFile s w1 = readAddressFile s w" by (rule readAddressFile_frame)
    with True Cons.prems(2) show ?thesis by simp
  next
    case False
    have "\<forall>x \<in> set (addrs @ [a]). address_line x"
      using readAddressFile_address_lines [OF Cons.prems(2)] Cons.prems(3) by auto
    moreover from False fl
    have "address_file w1 = Some (Join (addrs @ [a]) [CHR 0x0A] @ [CHR 0x0A])" by simp
    ultimately have "readAddressFile s w1 = Inr (addrs @ [a])" by (rule readAddressFile_written)
    with False show ?thesis by simp
  qed
  from Cons.prems(3) have "\<forall>x \<in> set as. address_line x" by simp
  from Cons.IH [OF rest rd1 this]
  obtain addrs' where r: "readAddressFile s w' = Inr addrs'"
    "set addrs' = set ?addrs1 \<union> set as" "distinct ?addrs1 \<longrightarrow> distinct addrs'"
    by blast
  have "set addrs' = set addrs \<union> set (a # as)" using r(2) by auto
  moreover have "distinct addrs \<longrightarrow> distinct addrs'" using r(3) by auto
  ultimately show ?case using r(1) by blast
qed


text \<open>
  Claim C3. For a line received from the follow process the worker goes through the whole
  list of patterns, in order, and handles the first group of every pattern whose match
  has one: the loop over the patterns is the same as handling, one after another, the
  addresses of all matching patterns, stopping only at an error. When the line is
  processed without error, the add hook (if configured) was run once for each matching
  pattern, in pattern order; each matched address has a timeout record with the
  expiration \<open>now + AddressTimeout\<close>; and, when the matched texts are address lines, the
  watchlist read afterwards holds what it held before together with the matched
  addresses, without new duplicates.
\<close>

theorem stdout_line_processes_every_match:
  "stdout_line s line w = process_all s (matched_addresses (Patterns s) line) w
   \<and> (stdout_line s line w = (None, w') \<longrightarrow>
        exec_log w' = exec_log w
           @ hook_calls (AddCommand s) (AddArgs s) (matched_addresses (Patterns s) line)
      \<and> (\<forall>a \<in> set (matched_addresses (Patterns s) line). fresh_record s w w' a)
      \<and> ((\<forall>a \<in> set (matched_addresses (Patterns s) line). address_line a) \<longrightarrow>
           (\<forall>addrs. readAddressFile s w = Inr addrs \<longrightarrow>
              (\<exists>addrs'. readAddressFile s w' = Inr addrs'
                 \<and> set addrs' = set addrs \<union> set (matched_addresses (Patterns s) line)
                 \<and> (distinct addrs \<longrightarrow> distinct addrs')))))"
proof -
  let ?as = "matched_addresses (Patterns s) line"
  have eq: "stdout_line s line w = process_all s ?as w"
    by (simp add: stdout_line_def match_patterns_process_all)
  have "exec_log w' = exec_log w @ hook_calls (AddCommand s) (AddArgs s) ?as
      \<and> (\<forall>a \<in> set ?as. fresh_record s w w' a)
      \<and> ((\<forall>a \<in> set ?as. address_line a) \<longrightarrow>
           (\<forall>addrs. readAddressFile s w = Inr addrs \<longrightarrow>
              (\<exists>addrs'. readAddressFile s w' = Inr addrs'
                 \<and> set addrs' = set addrs \<union> set ?as
                 \<and> (distinct addrs \<longrightarrow> distinct addrs'))))"
    if ok: "stdout_line s line w = (None, w')"
  proof -
    from ok eq have pa: "process_all s ?as w = (None, w')" by simp
    from process_all_None [OF pa] process_all_watchlist [OF pa]
    show ?thesis by blast
  qed
  with eq show ?thesis by blast
qed

lemmas eval_worker =
  stdout_line_def process_address_def addAddress_def exec_def readAddressFile_def
  write_address_file_def

theorem stdout_line_processes_every_match_witness:
  "matched_addresses (Patterns auth_scanner) auth_line = [''203.0.113.7'', ''203.0.113.7'']
   \<and> fst (stdout_line auth_scanner auth_line demo_world) = None
   \<and> exec_log (snd (stdout_line auth_scanner auth_line demo_world)) =
        [(''pfctl'', [''-t'', ''watch'', ''-T'', ''add'', ''203.0.113.7'']),
         (''pfctl'', [''-t'', ''watch'', ''-T'', ''add'', ''203.0.113.7''])]
   \<and> fresh_record auth_scanner demo_world (snd (stdout_line auth_scanner auth_line demo_world))
        ''203.0.113.7''
   \<and> readAddressFile auth_scanner (snd (stdout_line auth_scanner auth_line demo_world))
        = Inr [''10.0.0.5'', ''192.168.1.7'', ''203.0.113.7'']"
proof -
  let ?w' = "snd (stdout_line auth_scanner auth_line demo_world)"
  have m: "matched_addresses (Patterns auth_scanner) auth_line = [''203.0.113.7'', ''203.0.113.7'']"
    by (simp add: matched_addresses_def auth_scanner_def from_pattern_def plain_pattern_def
        port_pattern_def)
  have r: "stdout_line auth_scanner auth_line demo_world =
     (None, demo_world\<lparr>
        address_file := Some (''10.0.0.5'' @ [CHR 0x0A] @ ''192.168.1.7'' @ [CHR 0x0A]
                                @ ''203.0.113.7'' @ [CHR 0x0A]),
        timeout_dir := Some [(''10.0.0.5'', Regular (Stamp 1700000000000000000)),
                             (''192.168.1.7'', Regular (Stamp 1700000000000000001)),
                             (''lost+found'', Directory),
                             (''203.0.113.7'', Regular (Stamp 1700000005000000000))],
        exec_log := [(''pfctl'', [''-t'', ''watch'', ''-T'', ''add'', ''203.0.113.7'']),
                     (''pfctl'', [''-t'', ''watch'', ''-T'', ''add'', ''203.0.113.7''])]\<rparr>)"
    by (simp add: eval_worker eval_store eval_text auth_scanner_def demo_scanner_def
        demo_world_def from_pattern_def plain_pattern_def port_pattern_def auth_line_def)
  then have h: "stdout_line auth_scanner auth_line demo_world = (None, ?w')"
    by simp
  have al: "\<forall>a \<in> set (matched_addresses (Patterns auth_scanner) auth_line). address_line a"
    unfolding m by (simp add: address_line_def eval_text)
  have rd: "readAddressFile auth_scanner demo_world = Inr [''10.0.0.5'', ''192.168.1.7'']"
    by (simp add: readAddressFile_def demo_world_def eval_text)
  from stdout_line_processes_every_match [of auth_scanner auth_line demo_world ?w'] h
  have c: "exec_log ?w' = exec_log demo_world
           @ hook_calls (AddCommand auth_scanner) (AddArgs auth_scanner)
               (matched_addresses (Patterns auth_scanner) auth_line)"
    "\<forall>a \<in> set (matched_addresses (Patterns auth_scanner) auth_line).
        fresh_record auth_scanner demo_world ?w' a"
    by blast+
  have "exec_log ?w' =
        [(''pfctl'', [''-t'', ''watch'', ''-T'', ''add'', ''203.0.113.7'']),
         (''pfctl'', [''-t'', ''watch'', ''-T'', ''add'', ''203.0.113.7''])]"
    using c(1) unfolding m
    by (simp add: hook_calls_def auth_scanner_def demo_scanner_def demo_world_def)
  moreover have "fresh_record auth_scanner demo_world ?w' ''203.0.113.7''"
    using c(2) unfolding m by simp
  moreover have "readAddressFile auth_scanner ?w'
        = Inr [''10.0.0.5'', ''192.168.1.7'', ''203.0.113.7'']"
    unfolding r by (simp add: readAddressFile_def eval_text)
  moreover have "fst (stdout_line auth_scanner auth_line demo_world) = None"
    unfolding r by simp
  ultimately show ?thesis using m by blast
qed

section \<open>The reaper\<close>

lemma read_timeout_entry_listed:
  assumes "timeout_dir w = Some d" and "directory_ok d" and "(n, Regular c) \<in> set d"
  shows "read_timeout_entry n w = Inr c"
proof -
  have "map_of d n = Some (Regular c)"
    using assms(2,3) by (simp add: directory_ok_def)
  moreover have "entry_name n"
    using assms(2,3) by (force simp: directory_ok_def)
  ultimately show ?thesis using assms(1) by (simp add: read_timeout_entry_def)
qed

lemma expired_entries_ok:
  assumes "timeout_dir w = Some d" and "directory_ok d"
    and "set es \<subseteq> set d" and "\<forall>ne \<in> set es. parses ne"
  shows "expired_entries s w es acc = Inr (acc @ map fst (filter (is_expired (now w)) es))"
  using assms(3,4)
proof (induction es arbitrary: acc)
  case Nil
  then show ?case by simp
next
  case (Cons ne es)
  obtain n e where ne: "ne = (n, e)" by (cases ne)
  from Cons.prems have sub: "set es \<subseteq> set d" and p: "\<forall>x \<in> set es. parses x"
    and mem: "(n, e) \<in> set d" and pe: "parses (n, e)"
    by (simp_all add: ne)
  note ih = Cons.IH [OF sub p]
  show ?case
  proof (cases e)
    case (Regular c)
    with pe obtain t where c: "c = Stamp t" by (cases c) (simp_all add: parses_def)
    have "read_timeout_entry n w = Inr (Stamp t)"
      using read_timeout_entry_listed [OF assms(1,2)] mem Regular c by simp
    then show ?thesis
      using ih Regular c by (simp add: ne UnmarshalText_def is_expired_def)
  next
    case Directory
    then show ?thesis using ih by (simp add: ne is_expired_def)
  next
    case Irregular
    then show ?thesis using ih by (simp add: ne is_expired_def)
  qed
qed

lemma remove_timeout_entry_ok:
  assumes "timeout_dir w = Some d" and "\<not> read_only w" and "entry_name n"
    and "map_of d n = Some (Regular c)"
  shows "deleteTimeoutFile s n w = (None, w\<lparr>timeout_dir := Some (AList.delete n d)\<rparr>)"
  using assms by (simp add: deleteTimeoutFile_def remove_timeout_entry_def)

lemma fold_remove1_set:
  "distinct addrs \<Longrightarrow> set (fold remove1 xs addrs) = set addrs - set xs
     \<and> distinct (fold remove1 xs addrs)"
proof (induction xs arbitrary: addrs)
  case Nil
  then show ?case by simp
next
  case (Cons x xs)
  from Cons.prems have "distinct (remove1 x addrs)" by simp
  from Cons.IH [OF this] Cons.prems show ?case by auto
qed

lemma fold_remove1_subset: "set (fold remove1 xs addrs) \<subseteq> set addrs"
proof (induction xs arbitrary: addrs)
  case Nil
  then show ?case by simp
next
  case (Cons x xs)
  have "set (fold remove1 xs (remove1 x addrs)) \<subseteq> set (remove1 x addrs)" by (rule Cons.IH)
  also have "\<dots> \<subseteq> set addrs" by (rule set_remove1_subset)
  finally show ?case by simp
qed

lemma removeAddress_ok:
  assumes "readAddressFile s w = Inr addrs" and "\<not> read_only w"
    and "hook_ok w (DeleteCommand s) (DeleteArgs s) a"
  shows "\<exists>action w1. removeAddress s a w = (Inr action, w1)
           \<and> readAddressFile s w1 = Inr (remove1 a addrs)
           \<and> timeout_dir w1 = timeout_dir w \<and> now w1 = now w
           \<and> read_only w1 = read_only w \<and> exec_ok w1 = exec_ok w
           \<and> exec_log w1 = exec_log w @ hook_calls (DeleteCommand s) (DeleteArgs s) [a]"
proof -
  have log: "exec_log (after_hook w (DeleteCommand s) (DeleteArgs s) a)
      = exec_log w @ hook_calls (DeleteCommand s) (DeleteArgs s) [a]"
    by (simp add: after_hook_def hook_calls_def)
  show ?thesis
  proof (cases "a \<in> set addrs")
    case True
    let ?w1 = "(after_hook w (DeleteCommand s) (DeleteArgs s) a)
        \<lparr>address_file := Some (Join (remove1 a addrs) [CHR 0x0A] @ [CHR 0x0A])\<rparr>"
    have eq: "removeAddress s a w = (Inr ''deleted from'', ?w1)"
      by (rule removeAddress_present_eq [OF assms(1) True assms(3,2)])
    have "\<forall>x \<in> set (remove1 a addrs). address_line x"
      using readAddressFile_address_lines [OF assms(1)] set_remove1_subset [of a addrs] by blast
    moreover have "address_file ?w1 = Some (Join (remove1 a addrs) [CHR 0x0A] @ [CHR 0x0A])"
      by simp
    ultimately have "readAddressFile s ?w1 = Inr (remove1 a addrs)"
      by (rule readAddressFile_written)
    with eq log show ?thesis by simp
  next
    case False
    from removeAddress_absent_eq [OF assms(1) False] assms(3)
    have eq: "removeAddress s a w
        = (Inr ''not present in'', after_hook w (DeleteCommand s) (DeleteArgs s) a)"
      by simp
    have "remove1 a addrs = addrs" using False by (simp add: remove1_idem)
    with eq log assms(1) show ?thesis by simp
  qed
qed


lemma reap_ok:
  assumes "timeout_dir w = Some d" and "readAddressFile s w = Inr addrs" and "\<not> read_only w"
    and "distinct xs"
    and "\<forall>a \<in> set xs. hook_ok w (DeleteCommand s) (DeleteArgs s) a"
    and "\<forall>a \<in> set xs. entry_name a \<and> (\<exists>c. map_of d a = Some (Regular c))"
  shows "\<exists>w'. reap s xs w = (None, w')
           \<and> timeout_dir w' = Some (AList.restrict (- set xs) d)
           \<and> readAddressFile s w' = Inr (fold remove1 xs addrs)
           \<and> now w' = now w
           \<and> exec_log w' = exec_log w @ hook_calls (DeleteCommand s) (DeleteArgs s) xs"
  using assms
proof (induction xs arbitrary: w d addrs)
  case Nil
  then show ?case by (simp add: hook_calls_def AList.restrict_eq)
next
  case (Cons a xs)
  from Cons.prems(5) have ok: "hook_ok w (DeleteCommand s) (DeleteArgs s) a" by simp
  from removeAddress_ok [OF Cons.prems(2,3) ok]
  obtain action w1 where r: "removeAddress s a w = (Inr action, w1)"
    "readAddressFile s w1 = Inr (remove1 a addrs)"
    "timeout_dir w1 = timeout_dir w" "now w1 = now w"
    "read_only w1 = read_only w" "exec_ok w1 = exec_ok w"
    "exec_log w1 = exec_log w @ hook_calls (DeleteCommand s) (DeleteArgs s) [a]"
    by blast
  from Cons.prems(6) obtain c where a: "entry_name a" "map_of d a = Some (Regular c)" by auto
  let ?w2 = "w1\<lparr>timeout_dir := Some (AList.delete a d)\<rparr>"
  have del: "deleteTimeoutFile s a w1 = (None, ?w2)"
    using remove_timeout_entry_ok [of w1 d a c s] r(3,5) Cons.prems(1,3) a by simp
  have step: "reap s (a # xs) w = reap s xs ?w2"
    by (simp add: r(1) del)
  have p1: "timeout_dir ?w2 = Some (AList.delete a d)" by simp
  have p2: "readAddressFile s ?w2 = Inr (remove1 a addrs)"
    using r(2) by (simp add: readAddressFile_def)
  have p3: "\<not> read_only ?w2" using r(5) Cons.prems(3) by simp
  have p4: "distinct xs" and notin: "a \<notin> set xs" using Cons.prems(4) by simp_all
  have p5: "\<forall>b \<in> set xs. hook_ok ?w2 (DeleteCommand s) (DeleteArgs s) b"
    using Cons.prems(5) r(6) by (auto simp: hook_ok_def)
  have p6: "\<forall>b \<in> set xs. entry_name b \<and> (\<exists>c. map_of (AList.delete a d) b = Some (Regular c))"
    using Cons.prems(6) notin by (auto simp: delete_conv')
  from Cons.IH [OF p1 p2 p3 p4 p5 p6]
  obtain w' where w': "reap s xs ?w2 = (None, w')"
    "timeout_dir w' = Some (AList.restrict (- set xs) (AList.delete a d))"
    "readAddressFile s w' = Inr (fold remove1 xs (remove1 a addrs))"
    "now w' = now ?w2"
    "exec_log w' = exec_log ?w2 @ hook_calls (DeleteCommand s) (DeleteArgs s) xs"
    by blast
  have "AList.restrict (- set xs) (AList.delete a d) = AList.restrict (- set (a # xs)) d"
    by (induction d) auto
  moreover have "exec_log w' = exec_log w @ hook_calls (DeleteCommand s) (DeleteArgs s) (a # xs)"
    using w'(5) r(7) hook_calls_Cons [of "DeleteCommand s" "DeleteArgs s" a xs] by simp
  ultimately show ?case using step w' r(4) by simp
qed


lemma directory_ok_lookup:
  "directory_ok d \<Longrightarrow> (n, e) \<in> set d \<Longrightarrow> map_of d n = Some e \<and> entry_name n"
  by (force simp: directory_ok_def)

lemma distinct_listing:
  assumes "distinct (map fst d)"
  shows "distinct (map fst (filter P (sort_key fst d)))"
proof -
  from assms have "distinct d" and "inj_on fst (set d)" by (simp_all add: distinct_map)
  then have "distinct (map fst (sort_key fst d))" by (simp add: distinct_map)
  then show ?thesis by (rule distinct_map_filter)
qed

text \<open>
  One tick that meets no error, on any watchlist: the files of the expired records are
  deleted, and for each of them \<^verbatim>\<open>removeAddress\<close> takes the first occurrence of
  its name out of the list.
\<close>

lemma reaper_tick_ok:
  assumes "timeout_dir w = Some d" and "directory_ok d" and "\<forall>ne \<in> set d. parses ne"
    and "readAddressFile s w = Inr addrs" and "\<not> read_only w"
    and "\<forall>ne \<in> set d. is_expired (now w) ne \<longrightarrow>
           hook_ok w (DeleteCommand s) (DeleteArgs s) (fst ne)"
  shows "\<exists>w'. reaper_tick s w = (None, w')
           \<and> timeout_dir w' =
               Some (AList.restrict
                 (- set (map fst (sort_key fst (filter (is_expired (now w)) d)))) d)
           \<and> readAddressFile s w' =
               Inr (fold remove1 (map fst (sort_key fst (filter (is_expired (now w)) d))) addrs)"
proof -
  let ?es = "sort_key fst d"
  let ?xs = "map fst (filter (is_expired (now w)) ?es)"
  have xs: "?xs = map fst (sort_key fst (filter (is_expired (now w)) d))"
    by (simp add: filter_sort)
  have listing: "ReadDir w = Inr ?es" using assms(1) by (simp add: ReadDir_def)
  have "set ?es \<subseteq> set d" and "\<forall>ne \<in> set ?es. parses ne" using assms(3) by simp_all
  with assms(1,2) have collect: "expired_entries s w ?es [] = Inr ([] @ ?xs)"
    by (rule expired_entries_ok)
  have dist: "distinct ?xs" using assms(2) by (simp add: directory_ok_def distinct_listing)
  have hooks: "\<forall>a \<in> set ?xs. hook_ok w (DeleteCommand s) (DeleteArgs s) a"
    using assms(6) by auto
  have files: "\<forall>a \<in> set ?xs. entry_name a \<and> (\<exists>c. map_of d a = Some (Regular c))"
  proof
    fix a assume "a \<in> set ?xs"
    then obtain e where m: "(a, e) \<in> set d" and "is_expired (now w) (a, e)" by auto
    then obtain c where "e = Regular c" by (cases e) (simp_all add: is_expired_def)
    with directory_ok_lookup [OF assms(2) m]
    show "entry_name a \<and> (\<exists>c. map_of d a = Some (Regular c))" by blast
  qed
  from reap_ok [OF assms(1,4,5) dist hooks files]
  obtain w' where w': "reap s ?xs w = (None, w')"
    "timeout_dir w' = Some (AList.restrict (- set ?xs) d)"
    "readAddressFile s w' = Inr (fold remove1 ?xs addrs)"
    by blast
  have "reaper_tick s w = (None, w')"
    using listing collect w'(1) by (simp add: reaper_tick_def)
  with w'(2,3) show ?thesis unfolding xs by blast
qed

lemma fold_remove1_filter:
  "distinct addrs \<Longrightarrow> fold remove1 xs addrs = filter (\<lambda>a. a \<notin> set xs) addrs"
proof (induction xs arbitrary: addrs)
  case Nil
  then show ?case by simp
next
  case (Cons x xs)
  from Cons.prems have r: "remove1 x addrs = filter (\<lambda>a. a \<noteq> x) addrs"
    by (simp add: distinct_remove1_removeAll removeAll_filter_not_eq) metis
  from Cons.prems have "distinct (remove1 x addrs)" by simp
  from Cons.IH [OF this] have "fold remove1 (x # xs) addrs
      = filter (\<lambda>a. a \<notin> set xs) (filter (\<lambda>a. a \<noteq> x) addrs)"
    by (simp add: r)
  also have "\<dots> = filter (\<lambda>a. a \<notin> set (x # xs)) addrs"
    by (simp add: conj_commute)
  finally show ?case .
qed

text \<open>
  Claim C2, as the code has it. The expiry boundary of the reaper is non-strict. Take a
  tick at which the timeout directory lists well-formed names, every regular file in it
  parses as a timestamp, the watchlist is readable, the stores can be written and the
  delete hook (if configured) succeeds for the expired names. Let moreover the watchlist
  hold no address twice, and let the name of every expired record be free of white space
  around it, as the entries of the list read from the watchlist are. Then the tick ends
  without error, the list read afterwards is the old list without the names of the
  expired records, and for every record with expiration \<open>t\<close>: when \<open>t \<le> now\<close>, so also
  when \<open>t = now\<close>, its file is gone from the directory and its address is not in the
  watchlist read afterwards; when \<open>now < t\<close>, its file is there with the same content
  and its address is in the watchlist exactly if it was before.
\<close>

theorem reaper_expires_at_boundary:
  assumes "timeout_dir w = Some d" and "directory_ok d" and "\<forall>ne \<in> set d. parses ne"
    and "readAddressFile s w = Inr addrs" and "distinct addrs" and "\<not> read_only w"
    and "\<forall>ne \<in> set d. is_expired (now w) ne \<longrightarrow>
           hook_ok w (DeleteCommand s) (DeleteArgs s) (fst ne)"
    and "\<forall>ne \<in> set d. is_expired (now w) ne \<longrightarrow> TrimSpace (fst ne) = fst ne"
  shows "\<exists>w' d' addrs'.
           reaper_tick s w = (None, w') \<and> timeout_dir w' = Some d'
         \<and> readAddressFile s w' = Inr addrs'
         \<and> addrs' = filter (\<lambda>a. a \<notin> set (map fst (filter (is_expired (now w)) d))) addrs
         \<and> (\<forall>n t. (n, Regular (Stamp t)) \<in> set d \<longrightarrow>
               (t \<le> now w \<longrightarrow> map_of d' n = None \<and> n \<notin> set addrs'
                                \<and> TrimSpace n \<notin> set addrs')
             \<and> (now w < t \<longrightarrow> map_of d' n = Some (Regular (Stamp t))
                              \<and> (n \<in> set addrs' \<longleftrightarrow> n \<in> set addrs)))"
proof -
  let ?xs = "map fst (sort_key fst (filter (is_expired (now w)) d))"
  let ?ys = "map fst (filter (is_expired (now w)) d)"
  have same: "set ?xs = set ?ys" by simp
  have xs_iff: "n \<in> set ?xs \<longleftrightarrow> (\<exists>t. (n, Regular (Stamp t)) \<in> set d \<and> t \<le> now w)" for n
  proof
    assume "n \<in> set ?xs"
    then obtain e where "(n, e) \<in> set d" "is_expired (now w) (n, e)" by auto
    then show "\<exists>t. (n, Regular (Stamp t)) \<in> set d \<and> t \<le> now w"
      by (auto simp: is_expired_def split: entry.splits content.splits)
  next
    assume "\<exists>t. (n, Regular (Stamp t)) \<in> set d \<and> t \<le> now w"
    then obtain t where "(n, Regular (Stamp t)) \<in> set d" "is_expired (now w) (n, Regular (Stamp t))"
      by (auto simp: is_expired_def)
    then have "(n, Regular (Stamp t)) \<in> set (filter (is_expired (now w)) d)" by simp
    then show "n \<in> set ?xs" by force
  qed
  from reaper_tick_ok [OF assms(1,2,3,4,6,7)]
  obtain w' where tick: "reaper_tick s w = (None, w')"
    and w': "timeout_dir w' = Some (AList.restrict (- set ?xs) d)"
    "readAddressFile s w' = Inr (fold remove1 ?xs addrs)"
    by blast
  have after: "set (fold remove1 ?xs addrs) = set addrs - set ?xs"
    using fold_remove1_set [OF assms(5)] by blast
  have "fold remove1 ?xs addrs = filter (\<lambda>a. a \<notin> set ?xs) addrs"
    by (rule fold_remove1_filter [OF assms(5)])
  then have exact: "fold remove1 ?xs addrs = filter (\<lambda>a. a \<notin> set ?ys) addrs"
    by (simp only: same)
  have "(t \<le> now w \<longrightarrow> map_of (AList.restrict (- set ?xs) d) n = None
                        \<and> n \<notin> set (fold remove1 ?xs addrs)
                        \<and> TrimSpace n \<notin> set (fold remove1 ?xs addrs))
      \<and> (now w < t \<longrightarrow> map_of (AList.restrict (- set ?xs) d) n = Some (Regular (Stamp t))
                       \<and> (n \<in> set (fold remove1 ?xs addrs) \<longleftrightarrow> n \<in> set addrs))"
    if mem: "(n, Regular (Stamp t)) \<in> set d" for n t
  proof -
    from directory_ok_lookup [OF assms(2) mem]
    have look: "map_of d n = Some (Regular (Stamp t))" by simp
    have only: "t' = t" if "(n, Regular (Stamp t')) \<in> set d" for t'
      using directory_ok_lookup [OF assms(2) that] look by simp
    show ?thesis
    proof (cases "t \<le> now w")
      case True
      with mem have in_xs: "n \<in> set ?xs" using xs_iff by blast
      from True mem assms(8) have "TrimSpace n = n" by (force simp: is_expired_def)
      with True in_xs after show ?thesis by (simp add: restr_conv')
    next
      case False
      have "n \<notin> set ?xs"
      proof
        assume "n \<in> set ?xs"
        then obtain t' where "(n, Regular (Stamp t')) \<in> set d" "t' \<le> now w"
          using xs_iff by blast
        with only False show False by auto
      qed
      with False after look show ?thesis by (simp add: restr_conv')
    qed
  qed
  with tick w' exact show ?thesis by blast
qed

theorem reaper_expires_at_boundary_witness:
  "now demo_world = 1700000000000000000
   \<and> timeout_dir demo_world =
        Some [(''10.0.0.5'', Regular (Stamp 1700000000000000000)),
              (''192.168.1.7'', Regular (Stamp 1700000000000000001)),
              (''lost+found'', Directory)]
   \<and> readAddressFile demo_scanner demo_world = Inr [''10.0.0.5'', ''192.168.1.7'']
   \<and> TrimSpace ''10.0.0.5'' = ''10.0.0.5''
   \<and> (\<exists>w' d' addrs'.
          reaper_tick demo_scanner demo_world = (None, w') \<and> timeout_dir w' = Some d'
        \<and> readAddressFile demo_scanner w' = Inr addrs'
        \<and> addrs' = [''192.168.1.7'']
        \<and> map_of d' ''10.0.0.5'' = None \<and> ''10.0.0.5'' \<notin> set addrs'
        \<and> map_of d' ''192.168.1.7'' = Some (Regular (Stamp 1700000000000000001))
        \<and> ''192.168.1.7'' \<in> set addrs')"
proof -
  let ?d = "[(''10.0.0.5'', Regular (Stamp 1700000000000000000)),
             (''192.168.1.7'', Regular (Stamp 1700000000000000001)),
             (''lost+found'', Directory)]"
  have n: "now demo_world = 1700000000000000000" by (simp add: demo_world_def)
  have h1: "timeout_dir demo_world = Some ?d" by (simp add: demo_world_def)
  have h2: "directory_ok ?d" by (simp add: directory_ok_def entry_name_def)
  have h3: "\<forall>ne \<in> set ?d. parses ne" by (simp add: parses_def)
  have h4: "readAddressFile demo_scanner demo_world = Inr [''10.0.0.5'', ''192.168.1.7'']"
    by (rule demo_read)
  have h5: "distinct [''10.0.0.5'', ''192.168.1.7'']" by simp
  have h6: "\<not> read_only demo_world" by (simp add: demo_world_def)
  have h7: "\<forall>ne \<in> set ?d. is_expired (now demo_world) ne \<longrightarrow>
           hook_ok demo_world (DeleteCommand demo_scanner) (DeleteArgs demo_scanner) (fst ne)"
    by (simp add: hook_ok_def demo_world_def)
  have tr: "TrimSpace ''10.0.0.5'' = ''10.0.0.5''" by (simp add: eval_text)
  have h8: "\<forall>ne \<in> set ?d. is_expired (now demo_world) ne \<longrightarrow> TrimSpace (fst ne) = fst ne"
    by (simp add: is_expired_def n tr)
  have fl: "filter (\<lambda>a. a \<notin> set (map fst (filter (is_expired (now demo_world)) ?d)))
              [''10.0.0.5'', ''192.168.1.7''] = [''192.168.1.7'']"
    by (simp add: is_expired_def n)
  from reaper_expires_at_boundary [OF h1 h2 h3 h4 h5 h6 h7 h8]
  obtain w' d' addrs' where r: "reaper_tick demo_scanner demo_world = (None, w')"
    "timeout_dir w' = Some d'" "readAddressFile demo_scanner w' = Inr addrs'"
    and ex: "addrs' = filter (\<lambda>a. a \<notin> set (map fst (filter (is_expired (now demo_world)) ?d)))
              [''10.0.0.5'', ''192.168.1.7'']"
    and each: "\<forall>n t. (n, Regular (Stamp t)) \<in> set ?d \<longrightarrow>
               (t \<le> now demo_world \<longrightarrow> map_of d' n = None \<and> n \<notin> set addrs'
                     \<and> TrimSpace n \<notin> set addrs')
             \<and> (now demo_world < t \<longrightarrow> map_of d' n = Some (Regular (Stamp t))
                   \<and> (n \<in> set addrs' \<longleftrightarrow> n \<in> set [''10.0.0.5'', ''192.168.1.7'']))"
    by blast
  from ex have ex': "addrs' = [''192.168.1.7'']" unfolding fl .
  from each have "(1700000000000000000 \<le> now demo_world \<longrightarrow>
        map_of d' ''10.0.0.5'' = None \<and> ''10.0.0.5'' \<notin> set addrs')"
    by simp
  then have a: "map_of d' ''10.0.0.5'' = None" "''10.0.0.5'' \<notin> set addrs'"
    by (simp_all add: n)
  from each have "(now demo_world < 1700000000000000001 \<longrightarrow>
        map_of d' ''192.168.1.7'' = Some (Regular (Stamp 1700000000000000001))
        \<and> (''192.168.1.7'' \<in> set addrs'
             \<longleftrightarrow> ''192.168.1.7'' \<in> set [''10.0.0.5'', ''192.168.1.7'']))"
    by simp
  then have b: "map_of d' ''192.168.1.7'' = Some (Regular (Stamp 1700000000000000001))"
    "''192.168.1.7'' \<in> set addrs'"
    by (simp_all add: n)
  from n h1 h4 tr r ex' a b show ?thesis by blast
qed

text \<open>
  Claim C2 as stated fails in two ways. Where the watchlist holds an address twice,
  \<^verbatim>\<open>removeAddress\<close> deletes one occurrence only: with the lines \<open>10.0.0.5\<close>,
  \<open>10.0.0.5\<close> and a record of \<open>10.0.0.5\<close> that expires exactly at the tick, the tick
  ends without error, the record's file is deleted, and the address is still in the
  watchlist read afterwards. Where the record is named by a matched text with white space
  around the address, the name is compared with the trimmed list and never found: with
  the watchlist line \<open>10.0.0.5\<close> after a blank and a record of that name with the blank,
  the tick ends without error, the file of the record is deleted, and the watchlist
  still lists \<open>10.0.0.5\<close>.
\<close>

theorem reaper_expires_counterexample:
  "readAddressFile demo_scanner doubled_world = Inr [''10.0.0.5'', ''10.0.0.5'']
   \<and> map_of [(''10.0.0.5'', Regular (Stamp 1700000000000000000)),
              (''192.168.1.7'', Regular (Stamp 1700000000000000001)),
              (''lost+found'', Directory)] ''10.0.0.5''
        = Some (Regular (Stamp (now doubled_world)))
   \<and> fst (reaper_tick demo_scanner doubled_world) = None
   \<and> timeout_dir (snd (reaper_tick demo_scanner doubled_world)) =
        Some [(''192.168.1.7'', Regular (Stamp 1700000000000000001)), (''lost+found'', Directory)]
   \<and> readAddressFile demo_scanner (snd (reaper_tick demo_scanner doubled_world))
        = Inr [''10.0.0.5'']
   \<and> fst (reaper_tick demo_scanner spaced_world) = None
   \<and> timeout_dir (snd (reaper_tick demo_scanner spaced_world)) = Some []
   \<and> readAddressFile demo_scanner (snd (reaper_tick demo_scanner spaced_world))
        = Inr [''10.0.0.5'']"
proof -
  let ?d = "[(''10.0.0.5'', Regular (Stamp 1700000000000000000)),
             (''192.168.1.7'', Regular (Stamp 1700000000000000001)),
             (''lost+found'', Directory)]"
  let ?e = "[('' 10.0.0.5'', Regular (Stamp 1700000000000000000))]"
  have a1: "timeout_dir doubled_world = Some ?d" by (simp add: doubled_world_def demo_world_def)
  have a2: "directory_ok ?d" by (simp add: directory_ok_def entry_name_def)
  have a3: "\<forall>ne \<in> set ?d. parses ne" by (simp add: parses_def)
  have a5: "\<not> read_only doubled_world" by (simp add: doubled_world_def demo_world_def)
  have a6: "\<forall>ne \<in> set ?d. is_expired (now doubled_world) ne \<longrightarrow>
      hook_ok doubled_world (DeleteCommand demo_scanner) (DeleteArgs demo_scanner) (fst ne)"
    by (simp add: hook_ok_def doubled_world_def demo_world_def)
  have fa: "filter (is_expired (now doubled_world)) ?d
      = [(''10.0.0.5'', Regular (Stamp 1700000000000000000))]"
    by (simp add: is_expired_def doubled_world_def demo_world_def)
  from reaper_tick_ok [OF a1 a2 a3 doubled_read a5 a6]
  obtain w' where r: "reaper_tick demo_scanner doubled_world = (None, w')"
    "timeout_dir w' = Some (AList.restrict (- set [''10.0.0.5'']) ?d)"
    "readAddressFile demo_scanner w' = Inr (fold remove1 [''10.0.0.5''] [''10.0.0.5'', ''10.0.0.5''])"
    unfolding fa by auto
  have b1: "timeout_dir spaced_world = Some ?e" by (simp add: spaced_world_def demo_world_def)
  have b2: "directory_ok ?e" by (simp add: directory_ok_def entry_name_def)
  have b3: "\<forall>ne \<in> set ?e. parses ne" by (simp add: parses_def)
  have b5: "\<not> read_only spaced_world" by (simp add: spaced_world_def demo_world_def)
  have b6: "\<forall>ne \<in> set ?e. is_expired (now spaced_world) ne \<longrightarrow>
      hook_ok spaced_world (DeleteCommand demo_scanner) (DeleteArgs demo_scanner) (fst ne)"
    by (simp add: hook_ok_def spaced_world_def demo_world_def)
  have fb: "filter (is_expired (now spaced_world)) ?e = ?e"
    by (simp add: is_expired_def spaced_world_def demo_world_def)
  from reaper_tick_ok [OF b1 b2 b3 spaced_read b5 b6]
  obtain v' where q: "reaper_tick demo_scanner spaced_world = (None, v')"
    "timeout_dir v' = Some (AList.restrict (- set ['' 10.0.0.5'']) ?e)"
    "readAddressFile demo_scanner v' = Inr (fold remove1 ['' 10.0.0.5''] [''10.0.0.5''])"
    unfolding fb by auto
  have "map_of ?d ''10.0.0.5'' = Some (Regular (Stamp (now doubled_world)))"
    by (simp add: doubled_world_def demo_world_def)
  moreover have "fst (reaper_tick demo_scanner doubled_world) = None"
    "timeout_dir (snd (reaper_tick demo_scanner doubled_world)) =
        Some [(''192.168.1.7'', Regular (Stamp 1700000000000000001)), (''lost+found'', Directory)]"
    "readAddressFile demo_scanner (snd (reaper_tick demo_scanner doubled_world))
        = Inr [''10.0.0.5'']"
    using r by simp_all
  moreover have "fst (reaper_tick demo_scanner spaced_world) = None"
    "timeout_dir (snd (reaper_tick demo_scanner spaced_world)) = Some []"
    "readAddressFile demo_scanner (snd (reaper_tick demo_scanner spaced_world))
        = Inr [''10.0.0.5'']"
    using q by simp_all
  ultimately show ?thesis using doubled_read by blast
qed

section \<open>Entries that are not regular files\<close>

lemma readAddressFile_timeout_dir [simp]:
  "readAddressFile s (w\<lparr>timeout_dir := X\<rparr>) = readAddressFile s w"
  by (simp add: readAddressFile_def)

lemma removeAddress_timeout_dir:
  "removeAddress s a (w\<lparr>timeout_dir := X\<rparr>)
     = (fst (removeAddress s a w), (snd (removeAddress s a w))\<lparr>timeout_dir := X\<rparr>)"
proof -
  have h: "hook_ok (w\<lparr>timeout_dir := X\<rparr>) (DeleteCommand s) (DeleteArgs s) a
      = hook_ok w (DeleteCommand s) (DeleteArgs s) a"
    by (simp add: hook_ok_def)
  have ah: "after_hook (w\<lparr>timeout_dir := X\<rparr>) (DeleteCommand s) (DeleteArgs s) a
      = (after_hook w (DeleteCommand s) (DeleteArgs s) a)\<lparr>timeout_dir := X\<rparr>"
    by (simp add: after_hook_def)
  show ?thesis
  proof (cases "hook_ok w (DeleteCommand s) (DeleteArgs s) a")
    case False
    then show ?thesis unfolding removeAddress_def hook_step h ah by simp
  next
    case True
    show ?thesis
    proof (cases "readAddressFile s w")
      case (Inl err)
      then show ?thesis unfolding removeAddress_def hook_step h ah using True by simp
    next
      case (Inr addrs)
      show ?thesis
      proof (cases "a \<in> set addrs")
        case False
        then show ?thesis unfolding removeAddress_def hook_step h ah using True Inr by simp
      next
        case present: True
        then show ?thesis unfolding removeAddress_def hook_step h ah using True Inr
          by (simp add: Delete_Index write_address_file_def)
      qed
    qed
  qed
qed

lemma removeAddress_keeps_timeout_dir:
  "timeout_dir (snd (removeAddress s a w)) = timeout_dir w"
proof (cases "hook_ok w (DeleteCommand s) (DeleteArgs s) a")
  case False
  then show ?thesis unfolding removeAddress_def hook_step by simp
next
  case True
  show ?thesis
  proof (cases "readAddressFile s w")
    case (Inl err)
    then show ?thesis unfolding removeAddress_def hook_step using True by simp
  next
    case (Inr addrs)
    then show ?thesis unfolding removeAddress_def hook_step using True
      by (cases "a \<in> set addrs") (simp_all add: Delete_Index write_address_file_def)
  qed
qed

lemma expired_entries_names:
  "expired_entries s w es acc = Inr xs \<Longrightarrow>
     set xs \<subseteq> set acc \<union> {k. \<exists>c. (k, Regular c) \<in> set es}"
proof (induction es arbitrary: acc)
  case Nil
  then show ?case by simp
next
  case (Cons ne es)
  obtain k e where ne: "ne = (k, e)" by (cases ne)
  show ?case
  proof (cases e)
    case (Regular c)
    with Cons.prems ne obtain acc' where "expired_entries s w es acc' = Inr xs"
      and "set acc' \<subseteq> set acc \<union> {k}"
      by (auto split: sum.splits option.splits if_splits)
    from Cons.IH [OF this(1)] this(2) Regular ne show ?thesis by auto
  next
    case Directory
    with Cons.prems ne have "expired_entries s w es acc = Inr xs" by simp
    from Cons.IH [OF this] show ?thesis by auto
  next
    case Irregular
    with Cons.prems ne have "expired_entries s w es acc = Inr xs" by simp
    from Cons.IH [OF this] show ?thesis by auto
  qed
qed

lemma read_timeout_entry_other:
  "timeout_dir w = Some d \<Longrightarrow> k \<noteq> n \<Longrightarrow>
     read_timeout_entry k (w\<lparr>timeout_dir := Some (AList.delete n d)\<rparr>) = read_timeout_entry k w"
  by (simp add: read_timeout_entry_def)

lemma expired_entries_skip:
  assumes "timeout_dir w = Some d" and "distinct (map fst d)" and "(n, e) \<in> set d"
    and "non_regular e" and "set es \<subseteq> set d"
  shows "expired_entries s (w\<lparr>timeout_dir := Some (AList.delete n d)\<rparr>) (AList.delete n es) acc
           = expired_entries s w es acc"
  using assms(5)
proof (induction es arbitrary: acc)
  case Nil
  then show ?case by simp
next
  case (Cons ne es)
  obtain k e' where ne: "ne = (k, e')" by (cases ne)
  from Cons.prems have sub: "set es \<subseteq> set d" and mem: "(k, e') \<in> set d" by (simp_all add: ne)
  note ih = Cons.IH [OF sub]
  show ?case
  proof (cases "k = n")
    case True
    have "map_of d n = Some e" using assms(2,3) by simp
    moreover have "map_of d n = Some e'" using assms(2) mem True by simp
    ultimately have "e' = e" by simp
    with assms(4) True ih show ?thesis
      by (cases e) (simp_all add: ne non_regular_def)
  next
    case False
    from read_timeout_entry_other [OF assms(1) False]
    show ?thesis using False ih
      by (cases e') (simp_all add: ne split: sum.splits option.splits)
  qed
qed


lemma deleteTimeoutFile_other:
  assumes "timeout_dir w = Some d" and "a \<noteq> n"
  shows "deleteTimeoutFile s a (w\<lparr>timeout_dir := Some (AList.delete n d)\<rparr>) =
           (fst (deleteTimeoutFile s a w),
            (snd (deleteTimeoutFile s a w))\<lparr>timeout_dir :=
               Some (AList.delete n (case fst (deleteTimeoutFile s a w) of
                                        None \<Rightarrow> AList.delete a d | Some _ \<Rightarrow> d))\<rparr>)"
  using assms
  by (auto simp: deleteTimeoutFile_def remove_timeout_entry_def delete_twist
      split: option.splits entry.splits)

lemma deleteTimeoutFile_dir:
  assumes "timeout_dir w = Some d"
  shows "timeout_dir (snd (deleteTimeoutFile s a w)) =
           Some (case fst (deleteTimeoutFile s a w) of None \<Rightarrow> AList.delete a d | Some _ \<Rightarrow> d)"
  using assms
  by (auto simp: deleteTimeoutFile_def remove_timeout_entry_def
      split: option.splits entry.splits)

lemma reap_skip:
  assumes "timeout_dir w = Some d" and "map_of d n = Some e" and "n \<notin> set xs"
  shows "\<exists>d'. timeout_dir (snd (reap s xs w)) = Some d' \<and> map_of d' n = Some e
           \<and> reap s xs (w\<lparr>timeout_dir := Some (AList.delete n d)\<rparr>)
               = (fst (reap s xs w),
                  (snd (reap s xs w))\<lparr>timeout_dir := Some (AList.delete n d')\<rparr>)"
  using assms
proof (induction xs arbitrary: w d)
  case Nil
  then show ?case by simp
next
  case (Cons a xs)
  from Cons.prems(3) have an: "a \<noteq> n" and notin: "n \<notin> set xs" by auto
  obtain r w1 where rm: "removeAddress s a w = (r, w1)" by (cases "removeAddress s a w")
  have w1d: "timeout_dir w1 = Some d"
    using removeAddress_keeps_timeout_dir [of s a w] rm Cons.prems(1) by simp
  have rm': "removeAddress s a (w\<lparr>timeout_dir := Some (AList.delete n d)\<rparr>)
      = (r, w1\<lparr>timeout_dir := Some (AList.delete n d)\<rparr>)"
    using removeAddress_timeout_dir [where s = s and a = a and w = w] rm by simp
  show ?case
  proof (cases r)
    case (Inl err)
    with rm rm' w1d Cons.prems(2) show ?thesis by simp
  next
    case (Inr action)
    obtain q w2 where del: "deleteTimeoutFile s a w1 = (q, w2)"
      by (cases "deleteTimeoutFile s a w1")
    let ?d2 = "case q of None \<Rightarrow> AList.delete a d | Some _ \<Rightarrow> d"
    have w2d: "timeout_dir w2 = Some ?d2"
      using deleteTimeoutFile_dir [OF w1d, of s a] del by simp
    have del': "deleteTimeoutFile s a (w1\<lparr>timeout_dir := Some (AList.delete n d)\<rparr>)
        = (q, w2\<lparr>timeout_dir := Some (AList.delete n ?d2)\<rparr>)"
      using deleteTimeoutFile_other [OF w1d an, of s] del by simp
    have look: "map_of ?d2 n = Some e"
      using Cons.prems(2) an by (cases q) (simp_all add: delete_conv')
    show ?thesis
    proof (cases q)
      case (Some err)
      with Inr rm rm' del del' w2d look show ?thesis by simp
    next
      case None
      from Cons.IH [OF w2d look notin]
      obtain d' where "timeout_dir (snd (reap s xs w2)) = Some d'" "map_of d' n = Some e"
        "reap s xs (w2\<lparr>timeout_dir := Some (AList.delete n ?d2)\<rparr>)
           = (fst (reap s xs w2), (snd (reap s xs w2))\<lparr>timeout_dir := Some (AList.delete n d')\<rparr>)"
        by blast
      with None Inr rm rm' del del' show ?thesis by simp
    qed
  qed
qed


lemma ReadDir_delete:
  "timeout_dir w = Some d \<Longrightarrow>
     ReadDir (w\<lparr>timeout_dir := Some (AList.delete n d)\<rparr>) = Inr (AList.delete n (sort_key fst d))"
  by (simp add: ReadDir_def AList.delete_eq filter_sort)

text \<open>
  Claim C10. The reaper looks at regular files only. Let the timeout directory have an
  entry that is not a regular file (a subdirectory, or a link, pipe, device or socket),
  under any name and at any time. After the tick, whether it ended in an error or not, the
  entry is still there, unchanged; it is not among the names collected as expired; and
  the tick does the same as in a directory without the entry: the same error or success
  and the same resulting stores, but for the entry itself.
\<close>

theorem reaper_skips_non_regular:
  assumes "timeout_dir w = Some d" and "distinct (map fst d)" and "(n, e) \<in> set d"
    and "non_regular e"
  shows "\<exists>d'. timeout_dir (snd (reaper_tick s w)) = Some d' \<and> map_of d' n = Some e
          \<and> reaper_tick s (w\<lparr>timeout_dir := Some (AList.delete n d)\<rparr>)
              = (fst (reaper_tick s w),
                 (snd (reaper_tick s w))\<lparr>timeout_dir := Some (AList.delete n d')\<rparr>)
          \<and> (\<forall>xs. expired_entries s w (sort_key fst d) [] = Inr xs \<longrightarrow> n \<notin> set xs)"
proof -
  let ?w = "w\<lparr>timeout_dir := Some (AList.delete n d)\<rparr>"
  let ?es = "sort_key fst d"
  have look: "map_of d n = Some e" using assms(2,3) by simp
  have listing: "ReadDir w = Inr ?es" using assms(1) by (simp add: ReadDir_def)
  have listing': "ReadDir ?w = Inr (AList.delete n ?es)" using assms(1) by (rule ReadDir_delete)
  have "set ?es \<subseteq> set d" by simp
  with assms have same: "expired_entries s ?w (AList.delete n ?es) []
      = expired_entries s w ?es []"
    by (rule expired_entries_skip)
  have never: "n \<notin> set xs" if xs: "expired_entries s w ?es [] = Inr xs" for xs
  proof
    assume "n \<in> set xs"
    with expired_entries_names [OF xs] obtain c where "(n, Regular c) \<in> set d" by auto
    with assms(2) have "map_of d n = Some (Regular c)" by simp
    with look assms(4) show False by (auto simp: non_regular_def)
  qed
  show ?thesis
  proof (cases "expired_entries s w ?es []")
    case (Inl err)
    then have "reaper_tick s w = (Some err, w)" "reaper_tick s ?w = (Some err, ?w)"
      using listing listing' same by (simp_all add: reaper_tick_def)
    with assms(1) look never show ?thesis by simp
  next
    case (Inr xs)
    then have t: "reaper_tick s w = reap s xs w" "reaper_tick s ?w = reap s xs ?w"
      using listing listing' same by (simp_all add: reaper_tick_def)
    from reap_skip [OF assms(1) look never [OF Inr]] never
    show ?thesis unfolding t by blast
  qed
qed

theorem reaper_skips_non_regular_witness:
  "timeout_dir demo_world =
        Some [(''10.0.0.5'', Regular (Stamp 1700000000000000000)),
              (''192.168.1.7'', Regular (Stamp 1700000000000000001)),
              (''lost+found'', Directory)]
   \<and> non_regular Directory
   \<and> (\<exists>d'. timeout_dir (snd (reaper_tick demo_scanner demo_world)) = Some d'
          \<and> map_of d' ''lost+found'' = Some Directory
          \<and> fst (reaper_tick demo_scanner
                   (demo_world\<lparr>timeout_dir :=
                      Some [(''10.0.0.5'', Regular (Stamp 1700000000000000000)),
                            (''192.168.1.7'', Regular (Stamp 1700000000000000001))]\<rparr>))
              = fst (reaper_tick demo_scanner demo_world))"
proof -
  let ?d = "[(''10.0.0.5'', Regular (Stamp 1700000000000000000)),
             (''192.168.1.7'', Regular (Stamp 1700000000000000001)),
             (''lost+found'', Directory)]"
  have h1: "timeout_dir demo_world = Some ?d" by (simp add: demo_world_def)
  have h2: "distinct (map fst ?d)" by simp
  have h3: "(''lost+found'', Directory) \<in> set ?d" by simp
  have h4: "non_regular Directory" by (simp add: non_regular_def)
  from reaper_skips_non_regular [OF h1 h2 h3 h4, of demo_scanner]
  obtain d' where r: "timeout_dir (snd (reaper_tick demo_scanner demo_world)) = Some d'"
    "map_of d' ''lost+found'' = Some Directory"
    "reaper_tick demo_scanner (demo_world\<lparr>timeout_dir := Some (AList.delete ''lost+found'' ?d)\<rparr>)
       = (fst (reaper_tick demo_scanner demo_world),
          (snd (reaper_tick demo_scanner demo_world))
             \<lparr>timeout_dir := Some (AList.delete ''lost+found'' d')\<rparr>)"
    by blast
  have "AList.delete ''lost+found'' ?d =
      [(''10.0.0.5'', Regular (Stamp 1700000000000000000)),
       (''192.168.1.7'', Regular (Stamp 1700000000000000001))]"
    by simp
  with r(3) have "fst (reaper_tick demo_scanner
                   (demo_world\<lparr>timeout_dir :=
                      Some [(''10.0.0.5'', Regular (Stamp 1700000000000000000)),
                            (''192.168.1.7'', Regular (Stamp 1700000000000000001))]\<rparr>))
              = fst (reaper_tick demo_scanner demo_world)"
    by simp
  with h1 h4 r(1,2) show ?thesis by blast
qed

section \<open>The layout of the watchlist file\<close>

lemma file_layout_one_per_line:
  assumes "\<forall>a \<in> set as. address_line a" and "distinct as"
  shows "file_layout (one_per_line as)"
proof -
  have "\<forall>a \<in> set as. CHR 0x0A \<notin> set a" using assms(1) by (simp add: address_line_def)
  then have lines: "raw_lines [] (one_per_line as) = as"
    unfolding one_per_line_def by (rule raw_lines_concat)
  have "one_per_line as = [] \<or> last (one_per_line as) = CHR 0x0A"
  proof (cases as rule: rev_cases)
    case Nil
    then show ?thesis by (simp add: one_per_line_def)
  next
    case (snoc bs b)
    then show ?thesis by (simp add: one_per_line_def)
  qed
  with lines assms show ?thesis by (simp add: file_layout_def)
qed

lemma Join_one_per_line:
  "as \<noteq> [] \<Longrightarrow> Join as [CHR 0x0A] @ [CHR 0x0A] = one_per_line as"
  by (simp add: Join_newline one_per_line_def)

lemma addAddress_added:
  assumes "addAddress s addr w = (Inr ''added to'', w')" and "readAddressFile s w = Inr addrs"
  shows "addr \<notin> set addrs \<and> address_file w' = Some (one_per_line (addrs @ [addr]))"
proof -
  from addAddress_Inr [OF assms(1)] assms(2)
  have fl: "address_file w' =
               (if addr \<in> set addrs then address_file w
                else Some (Join (addrs @ [addr]) [CHR 0x0A] @ [CHR 0x0A]))"
    by auto
  have "addr \<notin> set addrs"
  proof
    assume "addr \<in> set addrs"
    from addAddress_present_eq [OF assms(2) this] assms(1) show False
      by (simp split: if_splits)
  qed
  with fl show ?thesis by (simp add: Join_one_per_line)
qed

lemma removeAddress_deleted:
  assumes "removeAddress s addr w = (Inr ''deleted from'', w')"
    and "readAddressFile s w = Inr addrs"
  shows "addr \<in> set addrs
       \<and> address_file w' = Some (Join (remove1 addr addrs) [CHR 0x0A] @ [CHR 0x0A])"
proof -
  have present: "addr \<in> set addrs"
  proof (rule ccontr)
    assume "addr \<notin> set addrs"
    from removeAddress_absent_eq [OF assms(2) this] assms(1) show False
      by (simp split: if_splits)
  qed
  have ok: "hook_ok w (DeleteCommand s) (DeleteArgs s) addr"
  proof (rule ccontr)
    assume "\<not> hook_ok w (DeleteCommand s) (DeleteArgs s) addr"
    with assms(1) show False unfolding removeAddress_def hook_step by simp
  qed
  have rw: "\<not> read_only w"
  proof
    assume "read_only w"
    with assms present ok show False
      unfolding removeAddress_def hook_step
      by (simp add: Delete_Index write_address_file_def)
  qed
  from removeAddress_present_eq [OF assms(2) present ok rw] assms(1) present
  show ?thesis by auto
qed


text \<open>
  Claim C6, as the code has it. Let the watchlist be readable and hold no address twice.
  After an \<^verbatim>\<open>addAddress\<close> that reports \<open>''added to''\<close> for an address line, the file
  is the old addresses followed by the new one at the end, each on a line of its own
  and each line ended by a newline, with no blank line and no duplicate. After a
  \<^verbatim>\<open>removeAddress\<close> that reports \<open>''deleted from''\<close>, the list read back is the old
  list without the address, the others in their old order; and when an address remains,
  the file is again those addresses, one per line, with no blank line and no duplicate.
  What the file looks like when no address remains is not stated here.
\<close>

theorem watchlist_layout_after_write:
  assumes "readAddressFile s w = Inr addrs" and "distinct addrs"
  shows "(address_line addr \<and> addAddress s addr w = (Inr ''added to'', w') \<longrightarrow>
            address_file w' = Some (one_per_line (addrs @ [addr]))
          \<and> file_layout (one_per_line (addrs @ [addr]))
          \<and> readAddressFile s w' = Inr (addrs @ [addr]))
       \<and> (removeAddress s addr w = (Inr ''deleted from'', w'') \<longrightarrow>
            readAddressFile s w'' = Inr (filter (\<lambda>a. a \<noteq> addr) addrs)
          \<and> (filter (\<lambda>a. a \<noteq> addr) addrs \<noteq> [] \<longrightarrow>
                address_file w'' = Some (one_per_line (filter (\<lambda>a. a \<noteq> addr) addrs))
              \<and> file_layout (one_per_line (filter (\<lambda>a. a \<noteq> addr) addrs))))"
proof (intro conjI impI)
  assume a: "address_line addr \<and> addAddress s addr w = (Inr ''added to'', w')"
  from addAddress_added [OF conjunct2 [OF a] assms(1)]
  have new: "addr \<notin> set addrs" and fl: "address_file w' = Some (one_per_line (addrs @ [addr]))"
    by simp_all
  have lines: "\<forall>x \<in> set (addrs @ [addr]). address_line x"
    using readAddressFile_address_lines [OF assms(1)] a by auto
  have dist: "distinct (addrs @ [addr])" using assms(2) new by simp
  show "address_file w' = Some (one_per_line (addrs @ [addr]))" by (rule fl)
  show "file_layout (one_per_line (addrs @ [addr]))"
    using lines dist by (rule file_layout_one_per_line)
  have "address_file w' = Some (Join (addrs @ [addr]) [CHR 0x0A] @ [CHR 0x0A])"
    using fl by (simp add: Join_one_per_line)
  with lines show "readAddressFile s w' = Inr (addrs @ [addr])"
    by (rule readAddressFile_written)
next
  let ?rest = "filter (\<lambda>a. a \<noteq> addr) addrs"
  assume r: "removeAddress s addr w = (Inr ''deleted from'', w'')"
  have rest: "remove1 addr addrs = ?rest"
    using assms(2) by (simp add: distinct_remove1_removeAll removeAll_filter_not_eq) metis
  from removeAddress_deleted [OF r assms(1)]
  have fl: "address_file w'' = Some (Join ?rest [CHR 0x0A] @ [CHR 0x0A])"
    by (simp add: rest)
  have lines: "\<forall>x \<in> set ?rest. address_line x"
    using readAddressFile_address_lines [OF assms(1)] by simp
  from lines fl show "readAddressFile s w'' = Inr ?rest"
    by (rule readAddressFile_written)
  assume ne: "?rest \<noteq> []"
  show "address_file w'' = Some (one_per_line ?rest)"
    using fl ne by (simp add: Join_one_per_line)
  show "file_layout (one_per_line ?rest)"
    using lines assms(2) by (simp add: file_layout_one_per_line)
qed


theorem watchlist_layout_after_write_witness:
  "readAddressFile demo_scanner demo_world = Inr [''10.0.0.5'', ''192.168.1.7'']
   \<and> distinct [''10.0.0.5'', ''192.168.1.7'']
   \<and> address_line ''172.16.0.9''
   \<and> fst (addAddress demo_scanner ''172.16.0.9'' demo_world) = Inr ''added to''
   \<and> address_file (snd (addAddress demo_scanner ''172.16.0.9'' demo_world))
        = Some (''10.0.0.5'' @ [CHR 0x0A] @ ''192.168.1.7'' @ [CHR 0x0A]
                  @ ''172.16.0.9'' @ [CHR 0x0A])
   \<and> file_layout (''10.0.0.5'' @ [CHR 0x0A] @ ''192.168.1.7'' @ [CHR 0x0A]
                  @ ''172.16.0.9'' @ [CHR 0x0A])
   \<and> fst (removeAddress demo_scanner ''10.0.0.5'' demo_world) = Inr ''deleted from''
   \<and> readAddressFile demo_scanner (snd (removeAddress demo_scanner ''10.0.0.5'' demo_world))
        = Inr [''192.168.1.7'']
   \<and> address_file (snd (removeAddress demo_scanner ''10.0.0.5'' demo_world))
        = Some (''192.168.1.7'' @ [CHR 0x0A])
   \<and> file_layout (''192.168.1.7'' @ [CHR 0x0A])"
proof -
  let ?wa = "snd (addAddress demo_scanner ''172.16.0.9'' demo_world)"
  let ?wr = "snd (removeAddress demo_scanner ''10.0.0.5'' demo_world)"
  have h1: "readAddressFile demo_scanner demo_world = Inr [''10.0.0.5'', ''192.168.1.7'']"
    by (rule demo_read)
  have h2: "distinct [''10.0.0.5'', ''192.168.1.7'']" by simp
  have al: "address_line ''172.16.0.9''" by (simp add: address_line_def eval_text)
  have fa: "fst (addAddress demo_scanner ''172.16.0.9'' demo_world) = Inr ''added to''"
    by (simp add: eval_worker eval_text demo_scanner_def demo_world_def)
  then have add: "addAddress demo_scanner ''172.16.0.9'' demo_world = (Inr ''added to'', ?wa)"
    by (metis prod.collapse)
  have fr: "fst (removeAddress demo_scanner ''10.0.0.5'' demo_world) = Inr ''deleted from''"
    by (simp add: removeAddress_def Delete_def eval_worker eval_text demo_scanner_def
        demo_world_def Let_def)
  then have rem: "removeAddress demo_scanner ''10.0.0.5'' demo_world = (Inr ''deleted from'', ?wr)"
    by (metis prod.collapse)
  from watchlist_layout_after_write [OF h1 h2, of "''172.16.0.9''" ?wa] al add
  have a: "address_file ?wa = Some (one_per_line ([''10.0.0.5'', ''192.168.1.7''] @ [''172.16.0.9'']))"
    "file_layout (one_per_line ([''10.0.0.5'', ''192.168.1.7''] @ [''172.16.0.9'']))"
    by blast+
  from watchlist_layout_after_write [OF h1 h2, of "''10.0.0.5''" _ ?wr] rem
  have r: "readAddressFile demo_scanner ?wr
             = Inr (filter (\<lambda>a. a \<noteq> ''10.0.0.5'') [''10.0.0.5'', ''192.168.1.7''])"
    "filter (\<lambda>a. a \<noteq> ''10.0.0.5'') [''10.0.0.5'', ''192.168.1.7''] \<noteq> [] \<longrightarrow>
       address_file ?wr
         = Some (one_per_line (filter (\<lambda>a. a \<noteq> ''10.0.0.5'') [''10.0.0.5'', ''192.168.1.7'']))
     \<and> file_layout
          (one_per_line (filter (\<lambda>a. a \<noteq> ''10.0.0.5'') [''10.0.0.5'', ''192.168.1.7'']))"
    by blast+
  have f: "filter (\<lambda>a. a \<noteq> ''10.0.0.5'') [''10.0.0.5'', ''192.168.1.7''] = [''192.168.1.7'']"
    by simp
  from a have a': "address_file ?wa
        = Some (''10.0.0.5'' @ [CHR 0x0A] @ ''192.168.1.7'' @ [CHR 0x0A]
                  @ ''172.16.0.9'' @ [CHR 0x0A])"
    "file_layout (''10.0.0.5'' @ [CHR 0x0A] @ ''192.168.1.7'' @ [CHR 0x0A]
                  @ ''172.16.0.9'' @ [CHR 0x0A])"
    by (simp_all add: one_per_line_def)
  from r have r': "readAddressFile demo_scanner ?wr = Inr [''192.168.1.7'']"
    "address_file ?wr = Some (''192.168.1.7'' @ [CHR 0x0A])"
    "file_layout (''192.168.1.7'' @ [CHR 0x0A])"
    unfolding f by (simp_all add: one_per_line_def)
  from h1 h2 al fa a' fr r' show ?thesis by blast
qed

text \<open>
  Claim C6 as stated fails where the watchlist already holds an address twice: the
  file \<open>10.0.0.5\<close>, \<open>10.0.0.5\<close> is read as a list with both entries, adding
  \<open>192.168.1.7\<close> succeeds and writes all three lines, and the file written still has
  the duplicate.
\<close>

theorem watchlist_layout_counterexample:
  "readAddressFile demo_scanner doubled_world = Inr [''10.0.0.5'', ''10.0.0.5'']
   \<and> fst (addAddress demo_scanner ''192.168.1.7'' doubled_world) = Inr ''added to''
   \<and> address_file (snd (addAddress demo_scanner ''192.168.1.7'' doubled_world))
        = Some (''10.0.0.5'' @ [CHR 0x0A] @ ''10.0.0.5'' @ [CHR 0x0A]
                  @ ''192.168.1.7'' @ [CHR 0x0A])
   \<and> \<not> file_layout (''10.0.0.5'' @ [CHR 0x0A] @ ''10.0.0.5'' @ [CHR 0x0A]
                  @ ''192.168.1.7'' @ [CHR 0x0A])
   \<and> \<not> distinct (raw_lines [] (''10.0.0.5'' @ [CHR 0x0A] @ ''10.0.0.5'' @ [CHR 0x0A]
                  @ ''192.168.1.7'' @ [CHR 0x0A]))"
proof -
  have "readAddressFile demo_scanner doubled_world = Inr [''10.0.0.5'', ''10.0.0.5'']"
    by (simp add: readAddressFile_def doubled_world_def demo_world_def eval_text Let_def)
  moreover have "fst (addAddress demo_scanner ''192.168.1.7'' doubled_world) = Inr ''added to''"
    by (simp add: eval_worker eval_text demo_scanner_def demo_world_def doubled_world_def Let_def)
  moreover have "address_file (snd (addAddress demo_scanner ''192.168.1.7'' doubled_world))
        = Some (''10.0.0.5'' @ [CHR 0x0A] @ ''10.0.0.5'' @ [CHR 0x0A]
                  @ ''192.168.1.7'' @ [CHR 0x0A])"
    by (simp add: eval_worker eval_text demo_scanner_def demo_world_def doubled_world_def Let_def)
  moreover have nd: "\<not> distinct (raw_lines [] (''10.0.0.5'' @ [CHR 0x0A] @ ''10.0.0.5'' @ [CHR 0x0A]
                  @ ''192.168.1.7'' @ [CHR 0x0A]))"
    by simp
  moreover have "\<not> file_layout (''10.0.0.5'' @ [CHR 0x0A] @ ''10.0.0.5'' @ [CHR 0x0A]
                  @ ''192.168.1.7'' @ [CHR 0x0A])"
    using nd unfolding file_layout_def by blast
  ultimately show ?thesis by blast
qed

text \<open>Removing the only address writes \<^verbatim>\<open>strings.Join\<close> of the empty list and a
  newline: a file of one empty line, where \<^verbatim>\<open>NewScanner\<close> creates an empty file for
  an empty watchlist.\<close>

lemma removeAddress_last_leaves_blank_line:
  "readAddressFile demo_scanner single_world = Inr [''10.0.0.5'']
   \<and> fst (removeAddress demo_scanner ''10.0.0.5'' single_world) = Inr ''deleted from''
   \<and> address_file (snd (removeAddress demo_scanner ''10.0.0.5'' single_world)) = Some [CHR 0x0A]
   \<and> raw_lines [] [CHR 0x0A] = [[]]
   \<and> \<not> file_layout [CHR 0x0A]"
proof -
  have "readAddressFile demo_scanner single_world = Inr [''10.0.0.5'']"
    by (simp add: readAddressFile_def single_world_def demo_world_def eval_text Let_def)
  moreover have "fst (removeAddress demo_scanner ''10.0.0.5'' single_world) = Inr ''deleted from''"
    by (simp add: removeAddress_def Delete_def eval_worker eval_text demo_scanner_def
        demo_world_def single_world_def Let_def)
  moreover have "address_file (snd (removeAddress demo_scanner ''10.0.0.5'' single_world))
      = Some [CHR 0x0A]"
    by (simp add: removeAddress_def Delete_def eval_worker eval_text demo_scanner_def
        demo_world_def single_world_def Let_def)
  moreover have "raw_lines [] [CHR 0x0A] = [[]]" by simp
  moreover have "\<not> file_layout [CHR 0x0A]" by (simp add: file_layout_def address_line_def)
  ultimately show ?thesis by blast
qed

end
